theory Spec2Isabelle
  imports Main "HOL-Library.Stream" "HOL-Library.Sublist"
begin

section \<open>Exceptions and the random source\<close>

text \<open>
  The exceptions that the modelled parts of \<^verbatim>\<open>google_form_bulk_submit.py\<close> can meet.
  \<open>RuntimeError c\<close> is the \<^verbatim>\<open>RuntimeError(f"Failed to parse form: {e}")\<close> raised by
  \<^verbatim>\<open>extract_form_structure\<close>; \<open>c\<close> is the exception \<^verbatim>\<open>e\<close> that it reports.
\<close>

datatype py_error =
    ValueError
  | IndexError
  | AttributeError
  | TimeoutException
  | NoSuchElementException
  | RuntimeError py_error

text \<open>
  Python's global generator of the \<^verbatim>\<open>random\<close> module is modelled as an explicit state that
  is threaded through every call: an infinite stream of raw draws. A call that needs a number
  below \<open>n\<close> reads the head of the stream modulo \<open>n\<close> and returns the tail as the new state,
  so every value the library can return is returned for some stream.
\<close>

type_synonym rng = "nat stream"

definition randbelow :: "nat \<Rightarrow> rng \<Rightarrow> nat \<times> rng" where
  "randbelow n g = (shd g mod n, stl g)"

text \<open>\<^verbatim>\<open>random.randint(a, b)\<close>: an integer of \<open>[a, b]\<close>; \<^verbatim>\<open>ValueError\<close> on an empty range.\<close>

definition randint :: "int \<Rightarrow> int \<Rightarrow> rng \<Rightarrow> py_error + (int \<times> rng)" where
  "randint a b g =
     (if b < a then Inl ValueError
      else (case randbelow (nat (b - a + 1)) g of (r, g') \<Rightarrow> Inr (a + int r, g')))"

text \<open>\<^verbatim>\<open>random.choice(seq)\<close>: one element of \<open>seq\<close>; \<^verbatim>\<open>IndexError\<close> on an empty sequence.\<close>

definition choice :: "'a list \<Rightarrow> rng \<Rightarrow> py_error + ('a \<times> rng)" where
  "choice xs g =
     (if xs = [] then Inl IndexError
      else (case randbelow (length xs) g of (j, g') \<Rightarrow> Inr (xs ! j, g')))"

text \<open>
  \<^verbatim>\<open>random.sample(population, k)\<close>: \<open>k\<close> elements drawn without replacement. Each step
  draws a position of the pool of elements not selected yet and takes that element out of the
  pool: a position of the population is selected at most once, and an element that occurs at
  several positions can be selected once for each of them. \<open>pick\<close> is the selection for a
  given list of drawn positions, \<open>sample_draws\<close> reads the positions off the generator.
\<close>

definition remove_nth :: "nat \<Rightarrow> 'a list \<Rightarrow> 'a list" where
  "remove_nth j xs = take j xs @ drop (Suc j) xs"

fun pick :: "'a list \<Rightarrow> nat list \<Rightarrow> 'a list" where
  "pick pool [] = []"
| "pick pool (j # js) = pool ! j # pick (remove_nth j pool) js"

fun sample_draws :: "nat \<Rightarrow> nat \<Rightarrow> rng \<Rightarrow> nat list \<times> rng" where
  "sample_draws n 0 g = ([], g)"
| "sample_draws n (Suc k) g =
     (case randbelow n g of (j, g') \<Rightarrow>
        (case sample_draws (n - 1) k g' of (js, g'') \<Rightarrow> (j # js, g'')))"

definition sample :: "'a list \<Rightarrow> int \<Rightarrow> rng \<Rightarrow> py_error + ('a list \<times> rng)" where
  "sample population k g =
     (if k < 0 \<or> int (length population) < k then Inl ValueError
      else (case sample_draws (length population) (nat k) g of
              (js, g') \<Rightarrow> Inr (pick population js, g')))"

text \<open>
  The draws that \<open>sample\<close> can make on a pool of \<open>n\<close> elements: the first is below \<open>n\<close>, the
  second below \<open>n - 1\<close>, and so on.
\<close>

fun valid_draws :: "nat \<Rightarrow> nat list \<Rightarrow> bool" where
  "valid_draws n [] = True"
| "valid_draws n (j # js) = (j < n \<and> valid_draws (n - 1) js)"

section \<open>Formatting integers\<close>

definition digit_char :: "nat \<Rightarrow> char" where
  "digit_char d = ''0123456789'' ! d"

fun str_nat :: "nat \<Rightarrow> string" where
  "str_nat n = (if n < 10 then [digit_char n] else str_nat (n div 10) @ [digit_char (n mod 10)])"

declare str_nat.simps [simp del]

text \<open>The format specifications \<^verbatim>\<open>{x}\<close> and \<^verbatim>\<open>{x:02d}\<close> of an f-string, for an integer.\<close>

definition format_d :: "int \<Rightarrow> string" where
  "format_d x = (if x < 0 then CHR ''-'' # str_nat (nat (- x)) else str_nat (nat x))"

definition format_02d :: "int \<Rightarrow> string" where
  "format_02d x =
     (if x < 0 then CHR ''-'' # replicate (1 - length (str_nat (nat (- x)))) CHR ''0'' @ str_nat (nat (- x))
      else replicate (2 - length (str_nat (nat x))) CHR ''0'' @ str_nat (nat x))"

section \<open>Random answer generators\<close>

definition words :: "string list" where
  "words = [''apple'', ''banana'', ''car'', ''dog'', ''energy'', ''finance'', ''goal'', ''happy'',
            ''investment'', ''job'', ''knowledge'', ''life'', ''money'', ''nature'', ''option'',
            ''plan'', ''quality'', ''return'', ''stock'', ''time'', ''value'', ''work'', ''xray'',
            ''young'', ''zebra'']"

text \<open>\<^verbatim>\<open>sep.join(xs)\<close>\<close>

fun join :: "string \<Rightarrow> string list \<Rightarrow> string" where
  "join sep [] = []"
| "join sep [x] = x"
| "join sep (x # y # ys) = x @ sep @ join sep (y # ys)"

definition random_text :: "rng \<Rightarrow> py_error + (string \<times> rng)" where
  "random_text g =
     (case randint 2 5 g of Inl e \<Rightarrow> Inl e | Inr (k, g1) \<Rightarrow>
        (case sample words k g1 of Inl e \<Rightarrow> Inl e | Inr (ws, g2) \<Rightarrow>
           Inr (join '' '' ws, g2)))"

definition random_paragraph :: "rng \<Rightarrow> py_error + (string \<times> rng)" where
  "random_paragraph g =
     (case random_text g of Inl e \<Rightarrow> Inl e | Inr (a, g1) \<Rightarrow>
        (case random_text g1 of Inl e \<Rightarrow> Inl e | Inr (b, g2) \<Rightarrow>
           Inr (a @ ''. '' @ b @ ''.'', g2)))"

definition random_date :: "rng \<Rightarrow> py_error + (string \<times> rng)" where
  "random_date g =
     (case randint 2000 2030 g of Inl e \<Rightarrow> Inl e | Inr (y, g1) \<Rightarrow>
        (case randint 1 12 g1 of Inl e \<Rightarrow> Inl e | Inr (m, g2) \<Rightarrow>
           (case randint 1 28 g2 of Inl e \<Rightarrow> Inl e | Inr (d, g3) \<Rightarrow>
              Inr (format_d y @ ''-'' @ format_02d m @ ''-'' @ format_02d d, g3))))"

definition random_time :: "rng \<Rightarrow> py_error + (string \<times> rng)" where
  "random_time g =
     (case randint 0 23 g of Inl e \<Rightarrow> Inl e | Inr (h, g1) \<Rightarrow>
        (case randint 0 59 g1 of Inl e \<Rightarrow> Inl e | Inr (m, g2) \<Rightarrow>
           Inr (format_02d h @ '':'' @ format_02d m, g2)))"

definition random_choice :: "string list \<Rightarrow> rng \<Rightarrow> py_error + (string \<times> rng)" where
  "random_choice opts g = (if opts \<noteq> [] then choice opts g else Inr ('''', g))"

definition random_multiple :: "string list \<Rightarrow> rng \<Rightarrow> py_error + (string list \<times> rng)" where
  "random_multiple opts g =
     (if opts = [] then Inr ([], g)
      else (case randint 1 (max 1 (int (length opts) div 2)) g of Inl e \<Rightarrow> Inl e | Inr (k, g1) \<Rightarrow>
              sample opts k g1))"

text \<open>
  Reading a formatted string back, for stating what a date or a time string looks like:
  a decimal digit, and the number that a string of decimal digits denotes.
\<close>

definition is_digit :: "char \<Rightarrow> bool" where
  "is_digit c = (c \<in> set ''0123456789'')"

definition digit_val :: "char \<Rightarrow> nat" where
  "digit_val c = of_char c - 48"

definition nat_of_digits :: "string \<Rightarrow> nat" where
  "nat_of_digits s = foldl (\<lambda>a c. 10 * a + digit_val c) 0 s"


section \<open>The rendered document and its accessor\<close>

text \<open>
  The page that the browser has rendered is a tree of elements; an element has a tag name
  (lower case), attributes and child elements. The document itself is the root of the tree.
  \<open>get_attribute\<close> is \<^verbatim>\<open>None\<close> for an attribute that the element does not have.
\<close>

datatype element = Element (tag_name: string) (attrs: "(string \<times> string) list") (children: "element list")

definition get_attribute :: "element \<Rightarrow> string \<Rightarrow> string option" where
  "get_attribute e a = map_of (attrs e) a"

text \<open>
  The locators (\<^verbatim>\<open>By\<close>) that the program uses. \<open>Attr_eq a v\<close> is the CSS test \<^verbatim>\<open>[a="v"]\<close> and
  \<open>Attr_prefix a v\<close> is \<^verbatim>\<open>[a^="v"]\<close>; \<open>CSS_SELECTOR t ts\<close> is a compound selector with an
  optional tag name and attribute tests, so \<^verbatim>\<open>div[role="radio"]\<close> is
  \<open>CSS_SELECTOR (Some ''div'') [Attr_eq ''role'' ''radio'']\<close>.
\<close>

datatype attr_test = Attr_eq string string | Attr_prefix string string

datatype locator = CSS_SELECTOR "string option" "attr_test list" | TAG_NAME string | NAME string

fun attr_holds :: "element \<Rightarrow> attr_test \<Rightarrow> bool" where
  "attr_holds e (Attr_eq a v) = (get_attribute e a = Some v)"
| "attr_holds e (Attr_prefix a v) =
     (case get_attribute e a of None \<Rightarrow> False | Some x \<Rightarrow> v \<noteq> [] \<and> prefix v x)"

fun matches :: "locator \<Rightarrow> element \<Rightarrow> bool" where
  "matches (CSS_SELECTOR t ts) e =
     ((case t of None \<Rightarrow> True | Some n \<Rightarrow> tag_name e = n) \<and> list_all (attr_holds e) ts)"
| "matches (TAG_NAME n) e = (tag_name e = n)"
| "matches (NAME n) e = (get_attribute e ''name'' = Some n)"

text \<open>The elements below a node, in document order (the node itself is not one of them).\<close>

fun descendants :: "element \<Rightarrow> element list" where
  "descendants (Element t a cs) = concat (map (\<lambda>c. c # descendants c) cs)"

definition find_elements :: "element \<Rightarrow> locator \<Rightarrow> element list" where
  "find_elements e b = filter (matches b) (descendants e)"

definition find_element :: "element \<Rightarrow> locator \<Rightarrow> py_error + element" where
  "find_element e b =
     (case find_elements e b of [] \<Rightarrow> Inl NoSuchElementException | x # xs \<Rightarrow> Inr x)"

text \<open>
  \<^verbatim>\<open>WebDriverWait(driver, 15).until(EC.presence_of_element_located(...))\<close> on the rendered
  document: the element is there, or the wait times out.
\<close>

definition wait_until_present :: "element \<Rightarrow> locator \<Rightarrow> py_error + element" where
  "wait_until_present doc b =
     (case find_elements doc b of [] \<Rightarrow> Inl TimeoutException | x # xs \<Rightarrow> Inr x)"

section \<open>Form structure extractor\<close>

record question =
  entry_id :: string
  q_type :: string
  options :: "string list"

record form_struct =
  action_url :: string
  fbzx :: "string option"
  page_history :: "string option"
  questions :: "question list"

text \<open>Python's truth value of an attribute that was read: neither \<^verbatim>\<open>None\<close> nor empty.\<close>

definition truthy :: "string option \<Rightarrow> bool" where
  "truthy v = (case v of None \<Rightarrow> False | Some s \<Rightarrow> s \<noteq> [])"

text \<open>The values of attribute \<open>a\<close> of the elements \<open>es\<close>, skipping the elements where it is not truthy.\<close>

definition attr_values :: "string \<Rightarrow> element list \<Rightarrow> string list" where
  "attr_values a es =
     concat (map (\<lambda>e. case get_attribute e a of None \<Rightarrow> [] | Some v \<Rightarrow> if v \<noteq> [] then [v] else []) es)"

text \<open>\<^verbatim>\<open>s.split('_')[0]\<close>\<close>

definition split_first :: "string \<Rightarrow> string" where
  "split_first s = takeWhile (\<lambda>c. c \<noteq> CHR ''_'') s"

text \<open>The entry id of a container: \<^verbatim>\<open>None\<close> when it has no named element.\<close>

definition container_entry_id :: "element \<Rightarrow> py_error + string option" where
  "container_entry_id qc =
     (let named = find_elements qc (CSS_SELECTOR None [Attr_prefix ''name'' ''entry.''])
                @ find_elements qc (CSS_SELECTOR (Some ''select'') [Attr_prefix ''name'' ''entry.''])
      in case named of
           [] \<Rightarrow> Inr None
         | n # ns \<Rightarrow> (case get_attribute n ''name'' of
                        None \<Rightarrow> Inl AttributeError
                      | Some full_name \<Rightarrow> Inr (Some (split_first full_name))))"

text \<open>
  The type of a container and its possible answers: the chain of \<^verbatim>\<open>if not q_type\<close> blocks,
  in which the first block that finds its elements sets the type.
\<close>

definition detect_type :: "element \<Rightarrow> string option \<times> string list" where
  "detect_type qc =
     (let radios = find_elements qc (CSS_SELECTOR (Some ''div'') [Attr_eq ''role'' ''radio'']) in
      if radios \<noteq> [] then
        (Some ''radio'',
         (let options_list = attr_values ''data-value'' radios in
          if options_list = [] then attr_values ''aria-label'' radios else options_list))
      else
      (let checkboxes = find_elements qc (CSS_SELECTOR (Some ''div'') [Attr_eq ''role'' ''checkbox'']) in
       if checkboxes \<noteq> [] then
         (Some ''checkbox'',
          (let options_list = attr_values ''data-value'' checkboxes in
           if options_list = [] then attr_values ''aria-label'' checkboxes else options_list))
       else
       (let selects = find_elements qc (TAG_NAME ''select'') in
        if selects \<noteq> [] then
          (Some ''dropdown'', attr_values ''value'' (find_elements (hd selects) (TAG_NAME ''option'')))
        else if find_elements qc (CSS_SELECTOR (Some ''input'') [Attr_eq ''type'' ''text'']) \<noteq> [] then
          (Some ''text'', [])
        else if find_elements qc (TAG_NAME ''textarea'') \<noteq> [] then
          (Some ''paragraph'', [])
        else
        (let radiogroups = find_elements qc (CSS_SELECTOR (Some ''div'') [Attr_eq ''role'' ''radiogroup'']) in
         if radiogroups \<noteq> [] then
           (Some ''scale'',
            concat (map (\<lambda>rg. attr_values ''data-value''
                           (find_elements rg (CSS_SELECTOR (Some ''div'') [Attr_eq ''role'' ''radio''])))
                        radiogroups))
         else if find_elements qc (CSS_SELECTOR (Some ''input'') [Attr_eq ''type'' ''date'']) \<noteq> [] then
           (Some ''date'', [])
         else if find_elements qc (CSS_SELECTOR (Some ''input'') [Attr_eq ''type'' ''time'']) \<noteq> [] then
           (Some ''time'', [])
         else (None, [])))))"

text \<open>One round of the loop over the containers: the questions so far, with the new one appended if there is one.\<close>

definition extract_container :: "element \<Rightarrow> question list \<Rightarrow> py_error + question list" where
  "extract_container qc qs =
     (case container_entry_id qc of
        Inl e \<Rightarrow> Inl e
      | Inr eid \<Rightarrow>
          (case detect_type qc of (ty, options_list) \<Rightarrow>
             if truthy eid \<and> truthy ty
             then Inr (qs @ [\<lparr>entry_id = the eid, q_type = the ty, options = options_list\<rparr>])
             else Inr qs))"

fun extract_containers :: "element list \<Rightarrow> question list \<Rightarrow> py_error + question list" where
  "extract_containers [] qs = Inr qs"
| "extract_containers (qc # qcs) qs =
     (case extract_container qc qs of Inl e \<Rightarrow> Inl e | Inr qs' \<Rightarrow> extract_containers qcs qs')"

text \<open>The body of the \<^verbatim>\<open>try\<close> block of \<^verbatim>\<open>extract_form_structure\<close>.\<close>

definition parse_form :: "element \<Rightarrow> py_error + form_struct" where
  "parse_form doc =
     (case wait_until_present doc (CSS_SELECTOR (Some ''form'') []) of Inl e \<Rightarrow> Inl e | Inr w \<Rightarrow>
      (case find_element doc (CSS_SELECTOR (Some ''form'') []) of Inl e \<Rightarrow> Inl e | Inr form \<Rightarrow>
       (case get_attribute form ''action'' of None \<Rightarrow> Inl AttributeError | Some action \<Rightarrow>
        (case find_element doc (NAME ''fbzx'') of Inl e \<Rightarrow> Inl e | Inr fbzx_elem \<Rightarrow>
         (let ph = (case find_element doc (NAME ''pageHistory'') of
                      Inl e \<Rightarrow> None
                    | Inr page_history_elem \<Rightarrow> get_attribute page_history_elem ''value'') in
          case extract_containers
                 (find_elements doc (CSS_SELECTOR (Some ''div'') [Attr_eq ''role'' ''listitem''])) [] of
            Inl e \<Rightarrow> Inl e
          | Inr qs \<Rightarrow>
              Inr \<lparr>action_url = (if \<not> prefix ''http'' action then ''https://docs.google.com'' @ action
                                  else action),
                   fbzx = get_attribute fbzx_elem ''value'',
                   page_history = ph,
                   questions = qs\<rparr>)))))"

text \<open>\<^verbatim>\<open>except Exception as e: raise RuntimeError(f"Failed to parse form: {e}")\<close>\<close>

definition extract_form_structure :: "element \<Rightarrow> py_error + form_struct" where
  "extract_form_structure doc =
     (case parse_form doc of Inl e \<Rightarrow> Inl (RuntimeError e) | Inr fs \<Rightarrow> Inr fs)"

section \<open>Building the POST data of one submission\<close>

text \<open>
  The payload is a list of key and value pairs. A value is what the form structure or a
  generator supplies; the token \<open>fbzx\<close> is passed on as it was read, so it can be \<^verbatim>\<open>None\<close>.
\<close>

type_synonym payload = "(string \<times> string option) list"

text \<open>One round of the loop over the questions: the data so far with the answer appended.\<close>

definition answer_question :: "question \<Rightarrow> payload \<Rightarrow> rng \<Rightarrow> py_error + (payload \<times> rng)" where
  "answer_question q data g =
     (let entry = entry_id q; qtype = q_type q; opts = options q in
      if qtype = ''radio'' \<or> qtype = ''dropdown'' then
        (if opts \<noteq> [] then
           (case random_choice opts g of Inl e \<Rightarrow> Inl e | Inr (v, g') \<Rightarrow> Inr (data @ [(entry, Some v)], g'))
         else Inr (data, g))
      else if qtype = ''checkbox'' then
        (case random_multiple opts g of Inl e \<Rightarrow> Inl e | Inr (selected, g') \<Rightarrow>
           Inr (foldl (\<lambda>d val. d @ [(entry, Some val)]) data selected, g'))
      else if qtype = ''text'' then
        (case random_text g of Inl e \<Rightarrow> Inl e | Inr (v, g') \<Rightarrow> Inr (data @ [(entry, Some v)], g'))
      else if qtype = ''paragraph'' then
        (case random_paragraph g of Inl e \<Rightarrow> Inl e | Inr (v, g') \<Rightarrow> Inr (data @ [(entry, Some v)], g'))
      else if qtype = ''date'' then
        (case random_date g of Inl e \<Rightarrow> Inl e | Inr (v, g') \<Rightarrow> Inr (data @ [(entry, Some v)], g'))
      else if qtype = ''time'' then
        (case random_time g of Inl e \<Rightarrow> Inl e | Inr (v, g') \<Rightarrow> Inr (data @ [(entry, Some v)], g'))
      else if qtype = ''scale'' then
        (if opts \<noteq> [] then
           (case random_choice opts g of Inl e \<Rightarrow> Inl e | Inr (v, g') \<Rightarrow> Inr (data @ [(entry, Some v)], g'))
         else Inr (data, g))
      else Inr (data, g))"

fun answer_questions :: "question list \<Rightarrow> payload \<Rightarrow> rng \<Rightarrow> py_error + (payload \<times> rng)" where
  "answer_questions [] data g = Inr (data, g)"
| "answer_questions (q # qs) data g =
     (case answer_question q data g of Inl e \<Rightarrow> Inl e | Inr (data', g') \<Rightarrow> answer_questions qs data' g')"

definition build_post_data :: "form_struct \<Rightarrow> rng \<Rightarrow> py_error + (payload \<times> rng)" where
  "build_post_data form_struct g =
     (let data = [(''fbzx'', fbzx form_struct)];
          data = (if truthy (page_history form_struct)
                  then data @ [(''pageHistory'', page_history form_struct)] else data)
      in answer_questions (questions form_struct) data g)"

text \<open>
  For stating what the payload looks like: the pairs that one round of the loop appends for a
  question (the round run on empty data), the generator after it, and for a list of questions
  the generator before each round and the group of pairs of each round.
\<close>

definition question_pairs :: "question \<Rightarrow> rng \<Rightarrow> payload" where
  "question_pairs q g = (case answer_question q [] g of Inl e \<Rightarrow> [] | Inr (data, g') \<Rightarrow> data)"

definition question_rng :: "question \<Rightarrow> rng \<Rightarrow> rng" where
  "question_rng q g = (case answer_question q [] g of Inl e \<Rightarrow> g | Inr (data, g') \<Rightarrow> g')"

fun question_rngs :: "question list \<Rightarrow> rng \<Rightarrow> rng list" where
  "question_rngs [] g = []"
| "question_rngs (q # qs) g = g # question_rngs qs (question_rng q g)"

fun question_groups :: "question list \<Rightarrow> rng \<Rightarrow> payload list" where
  "question_groups [] g = []"
| "question_groups (q # qs) g = question_pairs q g # question_groups qs (question_rng q g)"

text \<open>Every pair of the group has the entry id of the question as its key.\<close>

definition keyed_by :: "question \<Rightarrow> payload \<Rightarrow> bool" where
  "keyed_by q grp = list_all (\<lambda>p. fst p = entry_id q) grp"

section \<open>Cache management and bulk POST\<close>

text \<open>
  \<^verbatim>\<open>re.search(r'/d/e/([^/]+)', form_url)\<close>: the group of the leftmost match, which is the
  longest run of characters other than \<^verbatim>\<open>/\<close> after the first \<^verbatim>\<open>/d/e/\<close> that has one.
\<close>

fun search_form_id :: "string \<Rightarrow> string option" where
  "search_form_id [] = None"
| "search_form_id (c # cs) =
     (let grp = takeWhile (\<lambda>x. x \<noteq> CHR ''/'') (drop 5 (c # cs)) in
      if prefix ''/d/e/'' (c # cs) \<and> grp \<noteq> [] then Some grp else search_form_id cs)"

text \<open>The digest \<^verbatim>\<open>hashlib.md5(form_url.encode()).hexdigest()\<close> is a parameter.\<close>

definition get_cache_filename :: "(string \<Rightarrow> string) \<Rightarrow> string \<Rightarrow> string" where
  "get_cache_filename md5_hexdigest form_url =
     (let form_id = (case search_form_id form_url of
                       Some m \<Rightarrow> m
                     | None \<Rightarrow> take 10 (md5_hexdigest form_url))
      in ''google_form_'' @ form_id @ ''.json'')"

text \<open>
  What \<^verbatim>\<open>main\<close> works with outside the program: the digest function, the browser, which
  renders the document of a URL, and the server, which answers a POST with a status code
  or not at all (\<^verbatim>\<open>session.post\<close> raises). The world that \<^verbatim>\<open>main\<close> changes: the cache
  files, by name, and the POST requests made so far.
\<close>

datatype response = Status int | Post_failed

record env =
  md5_hexdigest :: "string \<Rightarrow> string"
  browser :: "string \<Rightarrow> element"
  server :: "string \<Rightarrow> payload \<Rightarrow> response"

record world =
  files :: "string \<Rightarrow> form_struct option"
  posts :: "(string \<times> payload) list"

text \<open>
  The loop \<^verbatim>\<open>for i in range(M)\<close>, with the number of rounds left. The delay between two
  submissions draws one number from the generator.
\<close>

fun submit_all :: "env \<Rightarrow> form_struct \<Rightarrow> nat \<Rightarrow> nat \<Rightarrow> world \<Rightarrow> rng \<Rightarrow> (py_error + nat) \<times> world \<times> rng" where
  "submit_all ev form_struct 0 success w g = (Inr success, w, g)"
| "submit_all ev form_struct (Suc n) success w g =
     (case build_post_data form_struct g of
        Inl e \<Rightarrow> (Inl e, w, g)
      | Inr (post_data, g1) \<Rightarrow>
          (let w1 = w\<lparr>posts := posts w @ [(action_url form_struct, post_data)]\<rparr>;
               success1 = (case server ev (action_url form_struct) post_data of
                             Status c \<Rightarrow> if c = 200 then success + 1 else success
                           | Post_failed \<Rightarrow> success)
           in submit_all ev form_struct n success1 w1 (stl g1)))"

text \<open>\<^verbatim>\<open>main\<close> after its arguments are read: \<open>form_url\<close> and the integer \<open>M\<close>.\<close>

definition main :: "env \<Rightarrow> string \<Rightarrow> int \<Rightarrow> world \<Rightarrow> rng \<Rightarrow> (py_error + nat) \<times> world \<times> rng" where
  "main ev form_url M w g =
     (let cache_file = get_cache_filename (md5_hexdigest ev) form_url in
      case files w cache_file of
        Some form_struct \<Rightarrow> submit_all ev form_struct (nat M) 0 w g
      | None \<Rightarrow>
          (case extract_form_structure (browser ev form_url) of
             Inl e \<Rightarrow> (Inl e, w, g)
           | Inr form_struct \<Rightarrow>
               submit_all ev form_struct (nat M) 0
                 (w\<lparr>files := (files w)(cache_file \<mapsto> form_struct)\<rparr>) g))"

section \<open>Dates and times\<close>

lemma str_nat_small: "n < 10 \<Longrightarrow> str_nat n = [digit_char n]"
  by (simp add: str_nat.simps)

lemma str_nat_big: "10 \<le> n \<Longrightarrow> str_nat n = str_nat (n div 10) @ [digit_char (n mod 10)]"
  by (subst str_nat.simps) simp

lemma str_nat_2: "10 \<le> n \<Longrightarrow> n < 100 \<Longrightarrow> str_nat n = [digit_char (n div 10), digit_char (n mod 10)]"
  by (simp add: str_nat_big str_nat_small)

lemma str_nat_4: "1000 \<le> n \<Longrightarrow> n < 10000 \<Longrightarrow>
  str_nat n = [digit_char (n div 1000), digit_char (n div 100 mod 10), digit_char (n div 10 mod 10), digit_char (n mod 10)]"
  apply (subst str_nat_big, simp)
  apply (subst str_nat_big, simp)
  apply (subst str_nat_big, simp)
  apply (subst str_nat_small, simp)
  apply (simp add: div_mult2_eq[symmetric])
  done

lemma is_digit_digit_char: "d < 10 \<Longrightarrow> is_digit (digit_char d)"
  unfolding is_digit_def digit_char_def
  by (simp add: nth_Cons' )

lemma digit_val_digit_char: "d < 10 \<Longrightarrow> digit_val (digit_char d) = d"
proof -
  assume "d < 10"
  then have "d \<in> {0,1,2,3,4,5,6,7,8,9}" by auto
  then show ?thesis unfolding digit_val_def digit_char_def by auto
qed



lemma randint_range:
  assumes "a \<le> b"
  shows "\<exists>r. randint a b g = Inr (r, stl g) \<and> a \<le> r \<and> r \<le> b"
proof -
  have pos: "0 < nat (b - a + 1)" using assms by simp
  have "shd g mod nat (b - a + 1) < nat (b - a + 1)" using pos by (rule mod_less_divisor)
  then have "a + int (shd g mod nat (b - a + 1)) \<le> b" by linarith
  then show ?thesis using assms by (simp add: randint_def randbelow_def)
qed

lemma nat_of_digits_2: "nat_of_digits [digit_char a, digit_char b] = 10 * digit_val (digit_char a) + digit_val (digit_char b)"
  by (simp add: nat_of_digits_def)

lemma format_02d_props:
  assumes "0 \<le> x" "x < 100"
  shows "length (format_02d x) = 2 \<and> list_all is_digit (format_02d x) \<and> int (nat_of_digits (format_02d x)) = x"
proof (cases "x < 10")
  case True
  then have n: "nat x < 10" using assms by simp
  have z: "CHR ''0'' = digit_char 0" by (simp add: digit_char_def)
  have f: "format_02d x = [digit_char 0, digit_char (nat x)]"
    using assms n by (simp add: format_02d_def str_nat_small z)
  show ?thesis using n assms unfolding f
    by (simp add: is_digit_digit_char digit_val_digit_char nat_of_digits_2)
next
  case False
  then have n: "10 \<le> nat x" "nat x < 100" using assms by simp_all
  have f: "format_02d x = [digit_char (nat x div 10), digit_char (nat x mod 10)]"
    using assms n by (simp add: format_02d_def str_nat_2)
  have d: "nat x div 10 < 10" using n by simp
  show ?thesis using n d assms unfolding f
    by (simp add: is_digit_digit_char digit_val_digit_char nat_of_digits_2)
qed

lemma horner4:
  "(n::nat) = 10 * q1 + r0 \<Longrightarrow> q1 = 10 * q2 + r1 \<Longrightarrow> q2 = 10 * q3 + r2 \<Longrightarrow>
   1000 * q3 + 100 * r2 + 10 * r1 + r0 = n"
  by simp
lemma digits4_value: "1000 * ((n::nat) div 1000) + 100 * (n div 100 mod 10)
      + 10 * (n div 10 mod 10) + n mod 10 = n"
proof -
  have 1: "n = 10 * (n div 10) + n mod 10" by simp
  have 2: "n div 10 = 10 * (n div 10 div 10) + n div 10 mod 10" by simp
  have 3: "n div 10 div 10 = 10 * (n div 10 div 10 div 10) + n div 10 div 10 mod 10" by simp
  have e: "n div 10 div 10 = n div 100" "n div 100 div 10 = n div 1000"
    by (simp_all add: div_mult2_eq [symmetric])
  show ?thesis using horner4 [OF 1 2 3] unfolding e .
qed

lemma nat_of_digits_4:
  "a < 10 \<Longrightarrow> b < 10 \<Longrightarrow> c < 10 \<Longrightarrow> d < 10 \<Longrightarrow>
   nat_of_digits [digit_char a, digit_char b, digit_char c, digit_char d] = 1000 * a + 100 * b + 10 * c + d"
  by (simp add: nat_of_digits_def digit_val_digit_char)

lemma digits4_all:
  "a < 10 \<Longrightarrow> b < 10 \<Longrightarrow> c < 10 \<Longrightarrow> d < 10 \<Longrightarrow>
   list_all is_digit [digit_char a, digit_char b, digit_char c, digit_char d]"
  by (simp add: is_digit_digit_char)

lemma str_nat_4_props:
  assumes "1000 \<le> n" "n < 10000"
  shows "length (str_nat n) = 4 \<and> list_all is_digit (str_nat n) \<and> nat_of_digits (str_nat n) = n"
proof -
  have a: "n div 1000 < 10" using assms by simp
  have b: "n div 100 mod 10 < 10" by simp
  have c: "n div 10 mod 10 < 10" by simp
  have d: "n mod 10 < 10" by simp
  have "nat_of_digits (str_nat n) = n"
    by (simp only: str_nat_4 [OF assms] nat_of_digits_4 [OF a b c d] digits4_value)
  moreover have "list_all is_digit (str_nat n)"
    by (simp only: str_nat_4 [OF assms] digits4_all [OF a b c d])
  moreover have "length (str_nat n) = 4"
    by (simp add: str_nat_4 [OF assms])
  ultimately show ?thesis by simp
qed

lemma format_d_props:
  assumes "1000 \<le> x" "x < 10000"
  shows "length (format_d x) = 4 \<and> list_all is_digit (format_d x) \<and> int (nat_of_digits (format_d x)) = x"
proof -
  have n: "1000 \<le> nat x" "nat x < 10000" using assms by simp_all
  have f: "format_d x = str_nat (nat x)" using assms by (simp add: format_d_def)
  show ?thesis unfolding f using str_nat_4_props [OF n] assms by simp
qed

lemma date_shape:
  assumes "length A = 4" "length B = 2" "length C = 2"
  shows "length (A @ ''-'' @ B @ ''-'' @ C) = 10 \<and> take 4 (A @ ''-'' @ B @ ''-'' @ C) = A
    \<and> (A @ ''-'' @ B @ ''-'' @ C) ! 4 = CHR ''-''
    \<and> take 2 (drop 5 (A @ ''-'' @ B @ ''-'' @ C)) = B
    \<and> (A @ ''-'' @ B @ ''-'' @ C) ! 7 = CHR ''-''
    \<and> drop 8 (A @ ''-'' @ B @ ''-'' @ C) = C"
  using assms by (simp add: nth_append)


lemma time_shape:
  assumes "length A = 2" "length B = 2"
  shows "length (A @ '':'' @ B) = 5 \<and> take 2 (A @ '':'' @ B) = A
    \<and> (A @ '':'' @ B) ! 2 = CHR '':'' \<and> drop 3 (A @ '':'' @ B) = B"
  using assms by (simp add: nth_append)

text \<open>
  Claim C4. Every call of \<open>random_date\<close> returns, and what it returns is a string of ten
  characters: four decimal digits, a hyphen, two decimal digits, a hyphen, two decimal
  digits (\<^verbatim>\<open>YYYY-MM-DD\<close>, zero-padded). The year that the first four digits denote is
  between 2000 and 2030, the month between 1 and 12 and the day between 1 and 28.
\<close>

theorem random_date_format:
  "\<exists>s g'. random_date g = Inr (s, g') \<and> length s = 10
     \<and> list_all is_digit (take 4 s) \<and> s ! 4 = CHR ''-''
     \<and> list_all is_digit (take 2 (drop 5 s)) \<and> s ! 7 = CHR ''-''
     \<and> list_all is_digit (drop 8 s)
     \<and> 2000 \<le> nat_of_digits (take 4 s) \<and> nat_of_digits (take 4 s) \<le> 2030
     \<and> 1 \<le> nat_of_digits (take 2 (drop 5 s)) \<and> nat_of_digits (take 2 (drop 5 s)) \<le> 12
     \<and> 1 \<le> nat_of_digits (drop 8 s) \<and> nat_of_digits (drop 8 s) \<le> 28"
proof -
  obtain y where y: "randint 2000 2030 g = Inr (y, stl g)" "2000 \<le> y" "y \<le> 2030"
    using randint_range [of 2000 2030 g] by auto
  obtain m where m: "randint 1 12 (stl g) = Inr (m, stl (stl g))" "1 \<le> m" "m \<le> 12"
    using randint_range [of 1 12 "stl g"] by auto
  obtain d where d: "randint 1 28 (stl (stl g)) = Inr (d, stl (stl (stl g)))" "1 \<le> d" "d \<le> 28"
    using randint_range [of 1 28 "stl (stl g)"] by auto
  define A where "A = format_d y"
  define B where "B = format_02d m"
  define C where "C = format_02d d"
  have r: "random_date g = Inr (A @ ''-'' @ B @ ''-'' @ C, stl (stl (stl g)))"
    by (simp add: random_date_def y m d A_def B_def C_def)
  have A: "length A = 4" "list_all is_digit A" "int (nat_of_digits A) = y"
    unfolding A_def using format_d_props [of y] y by simp_all
  have B: "length B = 2" "list_all is_digit B" "int (nat_of_digits B) = m"
    unfolding B_def using format_02d_props [of m] m by simp_all
  have C: "length C = 2" "list_all is_digit C" "int (nat_of_digits C) = d"
    unfolding C_def using format_02d_props [of d] d by simp_all
  note sh = date_shape [OF A(1) B(1) C(1)]
  have yb: "2000 \<le> nat_of_digits A \<and> nat_of_digits A \<le> 2030" using A(3) y by linarith
  have mb: "1 \<le> nat_of_digits B \<and> nat_of_digits B \<le> 12" using B(3) m by linarith
  have db: "1 \<le> nat_of_digits C \<and> nat_of_digits C \<le> 28" using C(3) d by linarith
  show ?thesis
    apply (rule exI [of _ "A @ ''-'' @ B @ ''-'' @ C"])
    apply (rule exI [of _ "stl (stl (stl g))"])
    apply (simp only: sh r A B C yb mb db)
    done
qed

text \<open>
  Claim C5. Every call of \<open>random_time\<close> returns, and what it returns is a string of five
  characters: two decimal digits, a colon, two decimal digits (\<^verbatim>\<open>HH:MM\<close>, zero-padded).
  The hour that the first two digits denote is at most 23 and the minute at most 59 (both
  are natural numbers, so at least 0).
\<close>

theorem random_time_format:
  "\<exists>s g'. random_time g = Inr (s, g') \<and> length s = 5
     \<and> list_all is_digit (take 2 s) \<and> s ! 2 = CHR '':'' \<and> list_all is_digit (drop 3 s)
     \<and> nat_of_digits (take 2 s) \<le> 23 \<and> nat_of_digits (drop 3 s) \<le> 59"
proof -
  obtain h where h: "randint 0 23 g = Inr (h, stl g)" "0 \<le> h" "h \<le> 23"
    using randint_range [of 0 23 g] by auto
  obtain m where m: "randint 0 59 (stl g) = Inr (m, stl (stl g))" "0 \<le> m" "m \<le> 59"
    using randint_range [of 0 59 "stl g"] by auto
  define A where "A = format_02d h"
  define B where "B = format_02d m"
  have r: "random_time g = Inr (A @ '':'' @ B, stl (stl g))"
    by (simp add: random_time_def h m A_def B_def)
  have A: "length A = 2" "list_all is_digit A" "int (nat_of_digits A) = h"
    unfolding A_def using format_02d_props [of h] h by simp_all
  have B: "length B = 2" "list_all is_digit B" "int (nat_of_digits B) = m"
    unfolding B_def using format_02d_props [of m] m by simp_all
  note sh = time_shape [OF A(1) B(1)]
  have hb: "nat_of_digits A \<le> 23" using A(3) h by linarith
  have mb: "nat_of_digits B \<le> 59" using B(3) m by linarith
  show ?thesis
    apply (rule exI [of _ "A @ '':'' @ B"])
    apply (rule exI [of _ "stl (stl g)"])
    apply (simp only: sh r A B hb mb)
    done
qed


section \<open>Choices among the options\<close>

lemma length_remove_nth: "j < length xs \<Longrightarrow> length (remove_nth j xs) = length xs - 1"
  by (simp add: remove_nth_def)

lemma set_remove_nth_subset: "set (remove_nth j xs) \<subseteq> set xs"
  unfolding remove_nth_def by (auto dest: in_set_takeD in_set_dropD)

lemma set_remove_nth_distinct:
  assumes "distinct xs" "j < length xs"
  shows "distinct (remove_nth j xs) \<and> xs ! j \<notin> set (remove_nth j xs)"
proof -
  have "xs = take j xs @ xs ! j # drop (Suc j) xs"
    using assms(2) by (rule id_take_nth_drop)
  then have "distinct (take j xs @ xs ! j # drop (Suc j) xs)" using assms(1) by simp
  then show ?thesis unfolding remove_nth_def by auto
qed

lemma set_remove_nth_superset:
  assumes "j < length xs"
  shows "set xs - {xs ! j} \<subseteq> set (remove_nth j xs)"
proof -
  have "set xs = set (take j xs @ xs ! j # drop (Suc j) xs)"
    using id_take_nth_drop [OF assms] by simp
  then show ?thesis unfolding remove_nth_def by auto
qed

lemma remove_nth_map: "remove_nth j (map f xs) = map f (remove_nth j xs)"
  by (simp add: remove_nth_def take_map drop_map)

lemma length_pick: "length (pick ps js) = length js"
  by (induction js arbitrary: ps) simp_all

lemma pick_map:
  "valid_draws (length ps) js \<Longrightarrow> pick (map f ps) js = map f (pick ps js)"
proof (induction js arbitrary: ps)
  case Nil
  show ?case by simp
next
  case (Cons j js)
  then have j: "j < length ps" and v: "valid_draws (length ps - 1) js" by simp_all
  have "valid_draws (length (remove_nth j ps)) js" using v j by (simp add: length_remove_nth)
  then have "pick (map f (remove_nth j ps)) js = map f (pick (remove_nth j ps) js)"
    by (rule Cons.IH)
  then show ?case using j by (simp add: remove_nth_map)
qed

lemma pick_positions:
  assumes "valid_draws (length xs) js"
  shows "pick xs js = map (nth xs) (pick [0..<length xs] js)"
proof -
  have "pick (map (nth xs) [0..<length xs]) js = map (nth xs) (pick [0..<length xs] js)"
    by (rule pick_map) (simp add: assms)
  then show ?thesis by (simp add: map_nth)
qed

lemma pick_distinct:
  "distinct ps \<Longrightarrow> valid_draws (length ps) js \<Longrightarrow>
   distinct (pick ps js) \<and> set (pick ps js) \<subseteq> set ps"
proof (induction js arbitrary: ps)
  case Nil
  show ?case by simp
next
  case (Cons j js)
  then have j: "j < length ps" and v: "valid_draws (length ps - 1) js" by simp_all
  have d: "distinct (remove_nth j ps)" "ps ! j \<notin> set (remove_nth j ps)"
    using set_remove_nth_distinct [OF Cons.prems(1) j] by simp_all
  have "valid_draws (length (remove_nth j ps)) js" using v j by (simp add: length_remove_nth)
  then have ih: "distinct (pick (remove_nth j ps) js)"
    "set (pick (remove_nth j ps) js) \<subseteq> set (remove_nth j ps)"
    using Cons.IH [OF d(1)] by simp_all
  have "ps ! j \<notin> set (pick (remove_nth j ps) js)" using ih(2) d(2) by auto
  moreover have "set (pick (remove_nth j ps) js) \<subseteq> set ps"
    using ih(2) set_remove_nth_subset [of j ps] by auto
  ultimately show ?case using ih(1) j by simp
qed

lemma pick_subset:
  "valid_draws (length ps) js \<Longrightarrow> set (pick ps js) \<subseteq> set ps"
proof (induction js arbitrary: ps)
  case Nil
  show ?case by simp
next
  case (Cons j js)
  then have j: "j < length ps" and v: "valid_draws (length ps - 1) js" by simp_all
  have "valid_draws (length (remove_nth j ps)) js" using v j by (simp add: length_remove_nth)
  then have "set (pick (remove_nth j ps) js) \<subseteq> set (remove_nth j ps)" by (rule Cons.IH)
  then have "set (pick (remove_nth j ps) js) \<subseteq> set ps"
    using set_remove_nth_subset [of j ps] by auto
  then show ?case using j by simp
qed

lemma pick_inj:
  "distinct ps \<Longrightarrow> valid_draws (length ps) js \<Longrightarrow> valid_draws (length ps) js' \<Longrightarrow>
   pick ps js = pick ps js' \<Longrightarrow> js = js'"
proof (induction js arbitrary: ps js')
  case Nil
  then have "length (pick ps js') = 0" by simp
  then show ?case by (simp add: length_pick)
next
  case (Cons j js)
  have "length (pick ps js') = Suc (length js)" using Cons.prems(4) [symmetric] by (simp add: length_pick)
  then obtain j' js'' where js': "js' = j' # js''" by (cases js') (simp_all add: length_pick)
  have j: "j < length ps" and v: "valid_draws (length ps - 1) js" using Cons.prems(2) by simp_all
  have j': "j' < length ps" and v': "valid_draws (length ps - 1) js''"
    using Cons.prems(3) js' by simp_all
  have hd: "ps ! j = ps ! j'" and tl: "pick (remove_nth j ps) js = pick (remove_nth j' ps) js''"
    using Cons.prems(4) js' by simp_all
  have e: "j = j'" using hd j j' Cons.prems(1) by (simp add: nth_eq_iff_index_eq)
  have d: "distinct (remove_nth j ps)" using set_remove_nth_distinct [OF Cons.prems(1) j] by simp
  have "js = js''"
  proof (rule Cons.IH [OF d])
    show "valid_draws (length (remove_nth j ps)) js" using v j by (simp add: length_remove_nth)
    show "valid_draws (length (remove_nth j ps)) js''" using v' j by (simp add: length_remove_nth)
    show "pick (remove_nth j ps) js = pick (remove_nth j ps) js''" using tl e by simp
  qed
  then show ?case using e js' by simp
qed

lemma pick_surj:
  "distinct ys \<Longrightarrow> set ys \<subseteq> set ps \<Longrightarrow> \<exists>js. valid_draws (length ps) js \<and> pick ps js = ys"
proof (induction ys arbitrary: ps)
  case Nil
  have "valid_draws (length ps) [] \<and> pick ps [] = []" by simp
  then show ?case by blast
next
  case (Cons y ys)
  then have "y \<in> set ps" by simp
  then obtain j where j: "j < length ps" "ps ! j = y" by (auto simp: in_set_conv_nth)
  have "set ys \<subseteq> set ps - {ps ! j}" using Cons.prems j(2) by auto
  then have "set ys \<subseteq> set (remove_nth j ps)" using set_remove_nth_superset [OF j(1)] by blast
  moreover have "distinct ys" using Cons.prems(1) by simp
  ultimately obtain js where js: "valid_draws (length (remove_nth j ps)) js" "pick (remove_nth j ps) js = ys"
    using Cons.IH by blast
  have "valid_draws (length ps) (j # js) \<and> pick ps (j # js) = y # ys"
    using j js by (simp add: length_remove_nth)
  then show ?case by blast
qed


lemma pick_count:
  assumes ps: "distinct ps" and S: "S \<subseteq> set ps" and k: "card S = k"
  shows "card {js. length js = k \<and> valid_draws (length ps) js \<and> set (pick ps js) = S} = fact k"
proof -
  let ?D = "{js. length js = k \<and> valid_draws (length ps) js \<and> set (pick ps js) = S}"
  let ?R = "{ys. length ys = k \<and> distinct ys \<and> set ys \<subseteq> S}"
  have fin: "finite S" using S by (rule finite_subset) simp
  have inj: "inj_on (pick ps) ?D"
    by (rule inj_onI) (auto intro: pick_inj [OF ps])
  have img: "pick ps ` ?D = ?R"
  proof (rule set_eqI, rule iffI)
    fix ys
    assume "ys \<in> pick ps ` ?D"
    then obtain js where js: "length js = k" "valid_draws (length ps) js" "set (pick ps js) = S"
      and ys: "ys = pick ps js" by auto
    have "distinct ys" using pick_distinct [OF ps js(2)] ys by simp
    then show "ys \<in> ?R" using js ys by (simp add: length_pick)
  next
    fix ys
    assume "ys \<in> ?R"
    then have ys: "length ys = k" "distinct ys" "set ys \<subseteq> S" by simp_all
    have "card (set ys) = card S" using ys(1,2) k by (simp add: distinct_card)
    then have eq: "set ys = S" using ys(3) fin by (simp add: card_subset_eq)
    have "set ys \<subseteq> set ps" using ys(3) S by blast
    then obtain js where js: "valid_draws (length ps) js" "pick ps js = ys"
      using pick_surj [OF ys(2)] by blast
    have "length js = k" using js(2) ys(1) length_pick [of ps js] by simp
    then have "js \<in> ?D" using js eq by simp
    then show "ys \<in> pick ps ` ?D" using js(2) by force
  qed
  have "card ?D = card (pick ps ` ?D)" using inj by (simp add: card_image)
  also have "\<dots> = card ?R" by (simp only: img)
  also have "\<dots> = \<Prod>{card S - k + 1 .. card S}"
    using fin k by (intro card_lists_distinct_length_eq) simp_all
  also have "\<dots> = fact k" using k by (simp add: fact_prod)
  finally show ?thesis .
qed

lemma sample_draws_valid:
  "k \<le> n \<Longrightarrow> valid_draws n (fst (sample_draws n k g)) \<and> length (fst (sample_draws n k g)) = k"
proof (induction k arbitrary: n g)
  case 0
  show ?case by simp
next
  case (Suc k)
  then have n: "0 < n" and k: "k \<le> n - 1" by simp_all
  have "shd g mod n < n" using n by simp
  then show ?case using Suc.IH [OF k, of "stl g"]
    by (auto simp: randbelow_def split: prod.splits)
qed

lemma sample_draws_reach:
  "valid_draws n js \<Longrightarrow> sample_draws n (length js) (js @- g) = (js, g)"
proof (induction js arbitrary: n)
  case Nil
  show ?case by simp
next
  case (Cons j js)
  then show ?case by (simp add: randbelow_def)
qed

lemma random_choice_member:
  assumes "opts \<noteq> []"
  shows "\<exists>v. random_choice opts g = Inr (v, stl g) \<and> v \<in> set opts"
proof -
  have "shd g mod length opts < length opts" using assms by simp
  then have "opts ! (shd g mod length opts) \<in> set opts" by (rule nth_mem)
  then show ?thesis using assms by (simp add: random_choice_def choice_def randbelow_def)
qed

lemma random_multiple_draws:
  assumes "opts \<noteq> []"
  shows "\<exists>js g'. random_multiple opts g = Inr (pick opts js, g')
     \<and> sample_draws (length opts) (length js) (stl g) = (js, g')
     \<and> valid_draws (length opts) js
     \<and> 1 \<le> length js \<and> length js \<le> max 1 (length opts div 2)"
proof -
  let ?n = "length opts"
  have n: "1 \<le> ?n" using assms by (cases opts) simp_all
  obtain k where k: "randint 1 (max 1 (int ?n div 2)) g = Inr (k, stl g)"
    "1 \<le> k" "k \<le> max 1 (int ?n div 2)"
    using randint_range [of 1 "max 1 (int ?n div 2)" g] by auto
  have kn: "k \<le> int ?n" using k(3) n by linarith
  have km: "nat k \<le> max 1 (?n div 2)" using k(2,3) by (simp add: zdiv_int nat_le_iff)
  have le: "nat k \<le> ?n" using kn k(2) by simp
  obtain js g' where sd: "sample_draws ?n (nat k) (stl g) = (js, g')" by (cases "sample_draws ?n (nat k) (stl g)")
  have v: "valid_draws ?n js" "length js = nat k" using sample_draws_valid [OF le, of "stl g"] sd by simp_all
  have "random_multiple opts g = Inr (pick opts js, g')"
    using assms k kn sd by (simp add: random_multiple_def sample_def)
  moreover have "1 \<le> length js" using v(2) k(2) by simp
  moreover have "length js \<le> max 1 (?n div 2)" using v(2) km by simp
  moreover have "sample_draws ?n (length js) (stl g) = (js, g')" using sd v(2) by simp
  ultimately show ?thesis using v(1) by blast
qed


lemma randint_count:
  "randint 1 (max 1 (int n div 2)) g = Inr (1 + int (shd g mod max 1 (n div 2)), stl g)"
proof -
  have "nat (max 1 (int n div 2)) = max 1 (n div 2)"
    by (simp add: max_def zdiv_int nat_div_distrib)
  then have "nat (max 1 (int n div 2) - 1 + 1) = max 1 (n div 2)" by simp
  moreover have "\<not> max 1 (int n div 2) < 1" by simp
  ultimately show ?thesis by (simp only: randint_def randbelow_def if_False prod.case)
qed

lemma random_multiple_sample:
  assumes "opts \<noteq> []"
  shows "random_multiple opts g =
     (case sample_draws (length opts) (1 + shd g mod max 1 (length opts div 2)) (stl g) of
        (js, g') \<Rightarrow> Inr (pick opts js, g'))"
proof -
  let ?n = "length opts"
  let ?k = "1 + shd g mod max 1 (?n div 2)"
  have n: "1 \<le> ?n" using assms by (cases opts) simp_all
  have "0 < max 1 (?n div 2)" by simp
  then have "shd g mod max 1 (?n div 2) < max 1 (?n div 2)" by (rule mod_less_divisor)
  then have "?k \<le> max 1 (?n div 2)" by linarith
  also have "\<dots> \<le> ?n" using n by simp
  finally have kn: "?k \<le> ?n" .
  have r: "randint 1 (max 1 (int ?n div 2)) g = Inr (int ?k, stl g)"
    using randint_count [of ?n g] by simp
  have "\<not> (int ?k < 0 \<or> int ?n < int ?k)" using kn by simp
  then have "sample opts (int ?k) (stl g) =
     (case sample_draws ?n ?k (stl g) of (js, g') \<Rightarrow> Inr (pick opts js, g'))"
    by (simp only: sample_def if_False nat_int)
  then show ?thesis using assms r by (simp add: random_multiple_def)
qed

lemma random_multiple_reach:
  assumes "opts \<noteq> []" and "1 \<le> length ds" and "length ds \<le> max 1 (length opts div 2)"
    and "valid_draws (length opts) ds"
  shows "random_multiple opts ((length ds - 1) ## ds @- g) = Inr (pick opts ds, g)"
proof -
  let ?n = "length opts"
  have "length ds - 1 < max 1 (?n div 2)" using assms(2,3) by simp
  then have "(length ds - 1) mod max 1 (?n div 2) = length ds - 1" by simp
  then have k: "1 + (length ds - 1) mod max 1 (?n div 2) = length ds"
    using assms(2) by simp
  have s: "sample_draws ?n (length ds) (ds @- g) = (ds, g)"
    using sample_draws_reach [OF assms(4)] .
  have "random_multiple opts ((length ds - 1) ## ds @- g) =
     (case sample_draws ?n (1 + (length ds - 1) mod max 1 (?n div 2)) (ds @- g) of
        (js, g') \<Rightarrow> Inr (pick opts js, g'))"
    using random_multiple_sample [OF assms(1), of "(length ds - 1) ## ds @- g"] by simp
  then show ?thesis by (simp only: k s prod.case)
qed

lemma random_multiple_count:
  assumes "opts \<noteq> []" and S: "S \<subseteq> {..<length opts}"
    and "1 \<le> card S" and "card S \<le> max 1 (length opts div 2)"
  shows "card {ds. length ds = card S \<and> valid_draws (length opts) ds
                \<and> random_multiple opts ((card S - 1) ## ds @- g)
                    = Inr (map (nth opts) (pick [0..<length opts] ds), g)
                \<and> set (pick [0..<length opts] ds) = S} = fact (card S)"
proof -
  let ?n = "length opts"
  let ?A = "{ds. length ds = card S \<and> valid_draws ?n ds
                \<and> random_multiple opts ((card S - 1) ## ds @- g)
                    = Inr (map (nth opts) (pick [0..<?n] ds), g)
                \<and> set (pick [0..<?n] ds) = S}"
  let ?B = "{ds. length ds = card S \<and> valid_draws (length [0..<?n]) ds
                \<and> set (pick [0..<?n] ds) = S}"
  have "?A = ?B"
  proof (rule set_eqI, rule iffI)
    fix ds assume "ds \<in> ?A"
    then show "ds \<in> ?B" by simp
  next
    fix ds assume "ds \<in> ?B"
    then have d: "length ds = card S" "valid_draws ?n ds" "set (pick [0..<?n] ds) = S"
      by simp_all
    have "random_multiple opts ((length ds - 1) ## ds @- g) = Inr (pick opts ds, g)"
      using random_multiple_reach [OF assms(1) _ _ d(2)] assms(3,4) d(1) by simp
    then have "random_multiple opts ((card S - 1) ## ds @- g)
        = Inr (map (nth opts) (pick [0..<?n] ds), g)"
      using pick_positions [OF d(2)] d(1) by simp
    then show "ds \<in> ?A" using d by simp
  qed
  moreover have "S \<subseteq> set [0..<?n]" using S by auto
  then have "card ?B = fact (card S)"
    using pick_count [where ps = "[0..<?n]" and S = S and k = "card S"] by simp
  ultimately show ?thesis by simp
qed



text \<open>
  Claim C1 says that the options selected for a multi-choice question have no duplicates.
  \<open>random_multiple\<close> samples positions of the list: on a list of options in which a value occurs
  at several positions (the columns of a grid are read once for every row), the selection
  can hold that value more than once.
\<close>

theorem multi_choice_repeated_value:
  "random_multiple [''A'', ''A'', ''A'', ''A''] (1 ## sconst 0) = Inr ([''A'', ''A''], sconst 0)
   \<and> \<not> distinct [''A'', ''A'']"
  by (simp add: random_multiple_def randint_def randbelow_def sample_def remove_nth_def numeral_2_eq_2)

text \<open>
  Claim C1, as amended. For a non-empty list of options of length \<open>n\<close>:
  \<^item> \<open>random_choice\<close>, which answers the single-choice, dropdown and linear-scale questions,
    returns an element of the options, and returns the option at position \<open>j\<close> when the
    generator draws \<open>j\<close>;
  \<^item> \<open>random_multiple\<close> returns \<open>k\<close> options, where \<open>k = 1 + c mod max 1 (n div 2)\<close> for the
    first number \<open>c\<close> that the generator draws, so \<open>1 \<le> k \<le> max 1 (n div 2)\<close>; they are taken
    at \<open>k\<close> different positions of the list, so they are elements of the options, and they
    are pairwise different values when the options are;
  \<^item> for every size \<open>k\<close> of that range and every admissible list \<open>ds\<close> of \<open>k\<close> draws,
    \<open>random_multiple\<close> on a generator that draws \<open>k - 1\<close> and then \<open>ds\<close> returns the options
    at the positions \<open>pick [0..<n] ds\<close>;
  \<^item> every set of \<open>k\<close> positions is what \<open>random_multiple\<close> selects on exactly \<open>k!\<close> of the
    admissible lists of \<open>k\<close> draws: the number is the same for every set, so with draws that
    are uniform the selection is uniform over the sets of positions of that size.
  On the empty list \<open>random_multiple\<close> returns the empty list.
\<close>

theorem synthesis_closed_domain:
  assumes "opts \<noteq> []"
  shows "(\<exists>v g'. random_choice opts g = Inr (v, g') \<and> v \<in> set opts)
    \<and> (j < length opts \<longrightarrow> random_choice opts (j ## g) = Inr (opts ! j, g))
    \<and> (\<exists>js g'. random_multiple opts g = Inr (pick opts js, g')
          \<and> length js = 1 + shd g mod max 1 (length opts div 2)
          \<and> sample_draws (length opts) (length js) (stl g) = (js, g')
          \<and> valid_draws (length opts) js
          \<and> 1 \<le> length js \<and> length js \<le> max 1 (length opts div 2)
          \<and> length (pick opts js) = length js
          \<and> set (pick opts js) \<subseteq> set opts
          \<and> pick opts js = map (nth opts) (pick [0..<length opts] js)
          \<and> distinct (pick [0..<length opts] js)
          \<and> set (pick [0..<length opts] js) \<subseteq> {..<length opts}
          \<and> (distinct opts \<longrightarrow> distinct (pick opts js)))
    \<and> (1 \<le> length ds \<and> length ds \<le> max 1 (length opts div 2)
          \<and> valid_draws (length opts) ds \<longrightarrow>
          random_multiple opts ((length ds - 1) ## ds @- g) = Inr (pick opts ds, g)
          \<and> pick opts ds = map (nth opts) (pick [0..<length opts] ds))
    \<and> (S \<subseteq> {..<length opts} \<and> 1 \<le> card S \<and> card S \<le> max 1 (length opts div 2) \<longrightarrow>
          card {ds. length ds = card S \<and> valid_draws (length opts) ds
                    \<and> random_multiple opts ((card S - 1) ## ds @- g)
                        = Inr (map (nth opts) (pick [0..<length opts] ds), g)
                    \<and> set (pick [0..<length opts] ds) = S} = fact (card S))
    \<and> random_multiple [] g = Inr ([], g)"
proof -
  let ?n = "length opts"
  let ?k = "1 + shd g mod max 1 (?n div 2)"
  have single: "\<exists>v g'. random_choice opts g = Inr (v, g') \<and> v \<in> set opts"
    using random_choice_member [OF assms, of g] by blast
  have each: "j < ?n \<longrightarrow> random_choice opts (j ## g) = Inr (opts ! j, g)"
    using assms by (simp add: random_choice_def choice_def randbelow_def)
  let ?M = "\<lambda>js g'. random_multiple opts g = Inr (pick opts js, g')
          \<and> length js = ?k
          \<and> sample_draws ?n (length js) (stl g) = (js, g')
          \<and> valid_draws ?n js
          \<and> 1 \<le> length js \<and> length js \<le> max 1 (?n div 2)
          \<and> length (pick opts js) = length js
          \<and> set (pick opts js) \<subseteq> set opts
          \<and> pick opts js = map (nth opts) (pick [0..<?n] js)
          \<and> distinct (pick [0..<?n] js)
          \<and> set (pick [0..<?n] js) \<subseteq> {..<?n}
          \<and> (distinct opts \<longrightarrow> distinct (pick opts js))"
  have n: "1 \<le> ?n" using assms by (cases opts) simp_all
  have "0 < max 1 (?n div 2)" by simp
  then have "shd g mod max 1 (?n div 2) < max 1 (?n div 2)" by (rule mod_less_divisor)
  then have km: "?k \<le> max 1 (?n div 2)" by linarith
  have "max 1 (?n div 2) \<le> ?n" using n by simp
  then have kn: "?k \<le> ?n" using km by linarith
  obtain js g' where sd: "sample_draws ?n ?k (stl g) = (js, g')"
    by (cases "sample_draws ?n ?k (stl g)")
  have v: "valid_draws ?n js" "length js = ?k"
    using sample_draws_valid [OF kn, of "stl g"] sd by simp_all
  have r: "random_multiple opts g = Inr (pick opts js, g')"
    using random_multiple_sample [OF assms, of g] sd by simp
  have s2: "sample_draws ?n (length js) (stl g) = (js, g')" using sd v(2) by simp
  have l1: "1 \<le> length js" using v(2) by simp
  have l2: "length js \<le> max 1 (?n div 2)" using v(2) km by simp
  have v0: "valid_draws (length [0..<?n]) js" using v(1) by simp
  have p: "distinct (pick [0..<?n] js)" "set (pick [0..<?n] js) \<subseteq> {..<?n}"
    using pick_distinct [OF distinct_upt v0] by auto
  have "?M js g'"
    using r v s2 l1 l2 p pick_positions [OF v(1)] pick_subset [OF v(1)] pick_distinct [OF _ v(1)]
    by (simp add: length_pick)
  then have multi: "\<exists>js g'. ?M js g'" by blast
  have reach: "1 \<le> length ds \<and> length ds \<le> max 1 (?n div 2) \<and> valid_draws ?n ds \<longrightarrow>
          random_multiple opts ((length ds - 1) ## ds @- g) = Inr (pick opts ds, g)
          \<and> pick opts ds = map (nth opts) (pick [0..<?n] ds)"
    using random_multiple_reach [OF assms, of ds g] pick_positions [of opts ds] by blast
  have uniform: "S \<subseteq> {..<?n} \<and> 1 \<le> card S \<and> card S \<le> max 1 (?n div 2) \<longrightarrow>
          card {ds. length ds = card S \<and> valid_draws ?n ds
                    \<and> random_multiple opts ((card S - 1) ## ds @- g)
                        = Inr (map (nth opts) (pick [0..<?n] ds), g)
                    \<and> set (pick [0..<?n] ds) = S} = fact (card S)"
    using random_multiple_count [OF assms, of S g] by blast
  have empty: "random_multiple [] g = Inr ([], g)" by (simp add: random_multiple_def)
  show ?thesis using single each multi reach uniform empty by blast
qed


theorem synthesis_closed_domain_witness:
  "[''A'', ''B'', ''C'', ''D''] \<noteq> []
   \<and> (2::nat) < length [''A'', ''B'', ''C'', ''D'']
   \<and> 1 \<le> length [1, 2::nat]
   \<and> length [1, 2::nat] \<le> max 1 (length [''A'', ''B'', ''C'', ''D''] div 2)
   \<and> valid_draws (length [''A'', ''B'', ''C'', ''D'']) [1, 2]
   \<and> {1::nat, 3} \<subseteq> {..<length [''A'', ''B'', ''C'', ''D'']}
   \<and> 1 \<le> card {1::nat, 3}
   \<and> card {1::nat, 3} \<le> max 1 (length [''A'', ''B'', ''C'', ''D''] div 2)
   \<and> distinct [''A'', ''B'', ''C'', ''D'']
   \<and> random_choice [''A'', ''B'', ''C'', ''D''] (2 ## 1 ## 1 ## 2 ## sconst 0)
       = Inr (''C'', 1 ## 1 ## 2 ## sconst 0)
   \<and> (\<exists>js g'. random_multiple [''A'', ''B'', ''C'', ''D''] (1 ## 1 ## 2 ## sconst 0)
            = Inr (pick [''A'', ''B'', ''C'', ''D''] js, g')
          \<and> length js = 2
          \<and> set (pick [''A'', ''B'', ''C'', ''D''] js) \<subseteq> set [''A'', ''B'', ''C'', ''D'']
          \<and> distinct (pick [''A'', ''B'', ''C'', ''D''] js))
   \<and> random_multiple [''A'', ''B'', ''C'', ''D''] (1 ## [1, 2] @- 1 ## 1 ## 2 ## sconst 0)
       = Inr ([''B'', ''D''], 1 ## 1 ## 2 ## sconst 0)
   \<and> card {ds. length ds = 2 \<and> valid_draws 4 ds
              \<and> random_multiple [''A'', ''B'', ''C'', ''D''] (1 ## ds @- 1 ## 1 ## 2 ## sconst 0)
                  = Inr (map (nth [''A'', ''B'', ''C'', ''D'']) (pick [0..<4] ds),
                         1 ## 1 ## 2 ## sconst 0)
              \<and> set (pick [0..<4] ds) = {1, 3}} = 2"
proof -
  let ?o = "[''A'', ''B'', ''C'', ''D'']"
  let ?g = "1 ## 1 ## 2 ## sconst 0"
  have h: "?o \<noteq> []" by simp
  have j: "(2::nat) < length ?o" by simp
  have d1: "1 \<le> length [1, 2::nat]" by simp
  have d2: "length [1, 2::nat] \<le> max 1 (length ?o div 2)" by simp
  have v: "valid_draws (length ?o) [1, 2]" by simp
  have s1: "{1::nat, 3} \<subseteq> {..<length ?o}" by simp
  have c: "card {1::nat, 3} = 2" by simp
  have s2: "1 \<le> card {1::nat, 3}" by (simp only: c)
  have s3: "card {1::nat, 3} \<le> max 1 (length ?o div 2)" by (simp add: c)
  have d: "distinct ?o" by simp
  note t = synthesis_closed_domain [OF h, of ?g 2 "[1, 2]" "{1, 3}"]
  have a: "random_choice ?o (2 ## ?g) = Inr (?o ! 2, ?g)" using t j by blast
  have a': "random_choice ?o (2 ## ?g) = Inr (''C'', ?g)" using a by simp
  have b: "\<exists>js g'. random_multiple ?o ?g = Inr (pick ?o js, g')
          \<and> length js = 1 + shd ?g mod max 1 (length ?o div 2)
          \<and> set (pick ?o js) \<subseteq> set ?o
          \<and> distinct (pick ?o js)"
    using t d by blast
  have k: "1 + shd ?g mod max 1 (length ?o div 2) = 2" by simp
  have b': "\<exists>js g'. random_multiple ?o ?g = Inr (pick ?o js, g')
          \<and> length js = 2 \<and> set (pick ?o js) \<subseteq> set ?o \<and> distinct (pick ?o js)"
    using b unfolding k .
  have r: "random_multiple ?o ((length [1, 2::nat] - 1) ## [1, 2] @- ?g) = Inr (pick ?o [1, 2], ?g)"
    using t d1 d2 v by blast
  have pk: "pick ?o [1, 2] = [''B'', ''D'']" by (simp add: remove_nth_def)
  have r': "random_multiple ?o (1 ## [1, 2] @- ?g) = Inr ([''B'', ''D''], ?g)"
    using r pk by simp
  have u: "card {ds. length ds = card {1::nat, 3} \<and> valid_draws (length ?o) ds
              \<and> random_multiple ?o ((card {1::nat, 3} - 1) ## ds @- ?g)
                  = Inr (map (nth ?o) (pick [0..<length ?o] ds), ?g)
              \<and> set (pick [0..<length ?o] ds) = {1, 3}} = fact (card {1::nat, 3})"
    using t s1 s2 s3 by blast
  have l: "length ?o = 4" by simp
  have f: "fact (2::nat) = (2::nat)" by (simp add: numeral_2_eq_2)
  have u': "card {ds. length ds = 2 \<and> valid_draws 4 ds
              \<and> random_multiple ?o (1 ## ds @- ?g)
                  = Inr (map (nth ?o) (pick [0..<4] ds), ?g)
              \<and> set (pick [0..<4] ds) = {1, 3}} = 2"
    using u unfolding c l f by simp
  show ?thesis using h j d1 d2 v s1 s2 s3 d a' b' r' u' by blast
qed

section \<open>The payload of one submission\<close>

text \<open>
  The generators of the open-domain answers always return, and so does every round of the loop
  of \<^verbatim>\<open>build_post_data\<close>: the payload is the token pairs followed by the groups of the
  questions, in the order of the schema.
\<close>

lemma random_multiple_total: "\<exists>sel g'. random_multiple opts g = Inr (sel, g')"
proof (cases "opts = []")
  case True
  then show ?thesis by (simp add: random_multiple_def)
next
  case False
  then show ?thesis using random_multiple_draws [of opts g] by blast
qed

lemma random_text_total: "\<exists>v g'. random_text g = Inr (v, g')"
proof -
  obtain k where k: "randint 2 5 g = Inr (k, stl g)" "2 \<le> k" "k \<le> 5"
    using randint_range [of 2 5 g] by auto
  have "length words = 25" by (simp add: words_def)
  then have "\<not> (k < 0 \<or> int (length words) < k)" using k by simp
  then show ?thesis
    by (simp add: random_text_def k sample_def split: prod.splits)
qed

lemma random_paragraph_total: "\<exists>v g'. random_paragraph g = Inr (v, g')"
proof -
  obtain a g1 where a: "random_text g = Inr (a, g1)" using random_text_total by blast
  obtain b g2 where b: "random_text g1 = Inr (b, g2)" using random_text_total by blast
  show ?thesis by (simp add: random_paragraph_def a b)
qed

lemma random_date_total: "\<exists>v g'. random_date g = Inr (v, g')"
proof -
  obtain y where y: "randint 2000 2030 g = Inr (y, stl g)"
    using randint_range [of 2000 2030 g] by auto
  obtain m where m: "randint 1 12 (stl g) = Inr (m, stl (stl g))"
    using randint_range [of 1 12 "stl g"] by auto
  obtain d where d: "randint 1 28 (stl (stl g)) = Inr (d, stl (stl (stl g)))"
    using randint_range [of 1 28 "stl (stl g)"] by auto
  show ?thesis by (simp add: random_date_def y m d)
qed

lemma random_time_total: "\<exists>v g'. random_time g = Inr (v, g')"
proof -
  obtain h where h: "randint 0 23 g = Inr (h, stl g)"
    using randint_range [of 0 23 g] by auto
  obtain m where m: "randint 0 59 (stl g) = Inr (m, stl (stl g))"
    using randint_range [of 0 59 "stl g"] by auto
  show ?thesis by (simp add: random_time_def h m)
qed

lemma foldl_append_pairs:
  "foldl (\<lambda>d val. d @ [(entry, Some val)]) data sel = data @ map (\<lambda>val. (entry, Some val)) sel"
  by (induction sel arbitrary: data) simp_all

text \<open>One round of the loop, in all its cases: what it appends does not depend on the data so far.\<close>

lemma answer_question_cases:
  "\<exists>grp g'. (\<forall>data. answer_question q data g = Inr (data @ grp, g')) \<and> keyed_by q grp"
proof -
  obtain c gc where c: "options q \<noteq> [] \<longrightarrow> random_choice (options q) g = Inr (c, gc)"
    using random_choice_member [of "options q" g] by blast
  obtain sel gm where m: "random_multiple (options q) g = Inr (sel, gm)"
    using random_multiple_total by blast
  obtain t gt where t: "random_text g = Inr (t, gt)" using random_text_total by blast
  obtain p gp where p: "random_paragraph g = Inr (p, gp)" using random_paragraph_total by blast
  obtain d gd where d: "random_date g = Inr (d, gd)" using random_date_total by blast
  obtain h gh where h: "random_time g = Inr (h, gh)" using random_time_total by blast
  consider (is_choice) "(q_type q = ''radio'' \<or> q_type q = ''dropdown'' \<or> q_type q = ''scale'') \<and> options q \<noteq> []"
    | (is_nochoice) "(q_type q = ''radio'' \<or> q_type q = ''dropdown'' \<or> q_type q = ''scale'') \<and> options q = []"
    | (is_checkbox) "q_type q = ''checkbox''"
    | (is_text) "q_type q = ''text''"
    | (is_paragraph) "q_type q = ''paragraph''"
    | (is_date) "q_type q = ''date''"
    | (is_time) "q_type q = ''time''"
    | (is_other) "q_type q \<noteq> ''radio''" "q_type q \<noteq> ''dropdown''" "q_type q \<noteq> ''scale''"
        "q_type q \<noteq> ''checkbox''" "q_type q \<noteq> ''text''" "q_type q \<noteq> ''paragraph''"
        "q_type q \<noteq> ''date''" "q_type q \<noteq> ''time''"
    by blast
  then show ?thesis
  proof cases
    case is_choice
    then have "\<forall>data. answer_question q data g = Inr (data @ [(entry_id q, Some c)], gc)"
      using c by (auto simp: answer_question_def)
    moreover have "keyed_by q [(entry_id q, Some c)]" by (simp add: keyed_by_def)
    ultimately show ?thesis by blast
  next
    case is_nochoice
    then have "\<forall>data. answer_question q data g = Inr (data @ [], g)"
      by (auto simp: answer_question_def)
    moreover have "keyed_by q []" by (simp add: keyed_by_def)
    ultimately show ?thesis by blast
  next
    case is_checkbox
    then have "\<forall>data. answer_question q data g
        = Inr (data @ map (\<lambda>val. (entry_id q, Some val)) sel, gm)"
      using m by (simp add: answer_question_def foldl_append_pairs)
    moreover have "keyed_by q (map (\<lambda>val. (entry_id q, Some val)) sel)"
      by (simp add: keyed_by_def list_all_iff)
    ultimately show ?thesis by blast
  next
    case is_text
    then have "\<forall>data. answer_question q data g = Inr (data @ [(entry_id q, Some t)], gt)"
      using t by (simp add: answer_question_def)
    moreover have "keyed_by q [(entry_id q, Some t)]" by (simp add: keyed_by_def)
    ultimately show ?thesis by blast
  next
    case is_paragraph
    then have "\<forall>data. answer_question q data g = Inr (data @ [(entry_id q, Some p)], gp)"
      using p by (simp add: answer_question_def)
    moreover have "keyed_by q [(entry_id q, Some p)]" by (simp add: keyed_by_def)
    ultimately show ?thesis by blast
  next
    case is_date
    then have "\<forall>data. answer_question q data g = Inr (data @ [(entry_id q, Some d)], gd)"
      using d by (simp add: answer_question_def)
    moreover have "keyed_by q [(entry_id q, Some d)]" by (simp add: keyed_by_def)
    ultimately show ?thesis by blast
  next
    case is_time
    then have "\<forall>data. answer_question q data g = Inr (data @ [(entry_id q, Some h)], gh)"
      using h by (simp add: answer_question_def)
    moreover have "keyed_by q [(entry_id q, Some h)]" by (simp add: keyed_by_def)
    ultimately show ?thesis by blast
  next
    case is_other
    then have "\<forall>data. answer_question q data g = Inr (data @ [], g)"
      by (simp add: answer_question_def)
    moreover have "keyed_by q []" by (simp add: keyed_by_def)
    ultimately show ?thesis by blast
  qed
qed

lemma answer_question_append:
  "answer_question q data g = Inr (data @ question_pairs q g, question_rng q g)"
proof -
  obtain grp g' where a: "\<And>data. answer_question q data g = Inr (data @ grp, g')"
    using answer_question_cases [of q g] by blast
  have "question_pairs q g = grp" "question_rng q g = g'"
    using a [of "[]"] by (simp_all add: question_pairs_def question_rng_def)
  then show ?thesis using a [of data] by simp
qed

lemma question_pairs_keyed: "keyed_by q (question_pairs q g)"
proof -
  obtain grp g' where a: "\<And>data. answer_question q data g = Inr (data @ grp, g')"
    and k: "keyed_by q grp"
    using answer_question_cases [of q g] by blast
  have "question_pairs q g = grp" using a [of "[]"] by (simp add: question_pairs_def)
  then show ?thesis using k by simp
qed

lemma answer_questions_append:
  "\<exists>g'. answer_questions qs data g = Inr (data @ concat (question_groups qs g), g')"
proof (induction qs arbitrary: data g)
  case Nil
  show ?case by simp
next
  case (Cons q qs)
  obtain g' where "answer_questions qs (data @ question_pairs q g) (question_rng q g)
      = Inr ((data @ question_pairs q g) @ concat (question_groups qs (question_rng q g)), g')"
    using Cons.IH by blast
  then show ?case by (simp add: answer_question_append)
qed

lemma question_groups_keyed: "list_all2 keyed_by qs (question_groups qs g)"
  by (induction qs arbitrary: g) (simp_all add: question_pairs_keyed)

lemma length_question_groups: "length (question_groups qs g) = length qs"
  by (induction qs arbitrary: g) simp_all

lemma length_question_rngs: "length (question_rngs qs g) = length qs"
  by (induction qs arbitrary: g) simp_all

lemma question_groups_nth:
  "i < length qs \<Longrightarrow> question_groups qs g ! i = question_pairs (qs ! i) (question_rngs qs g ! i)"
proof (induction qs arbitrary: g i)
  case Nil
  then show ?case by simp
next
  case (Cons q qs)
  then show ?case by (cases i) simp_all
qed

lemma filter_keyed:
  "keyed_by q grp \<Longrightarrow> filter (\<lambda>p. fst p = e) grp = (if e = entry_id q then grp else [])"
  by (induction grp) (auto simp: keyed_by_def)

lemma filter_other_groups:
  "list_all2 keyed_by qs groups \<Longrightarrow> e \<notin> entry_id ` set qs \<Longrightarrow>
   filter (\<lambda>p. fst p = e) (concat groups) = []"
proof (induction qs groups rule: list_all2_induct)
  case Nil
  show ?case by simp
next
  case (Cons q qs grp groups)
  then show ?case by (simp add: filter_keyed)
qed

lemma filter_groups:
  "list_all2 keyed_by qs groups \<Longrightarrow> distinct (map entry_id qs) \<Longrightarrow> i < length qs \<Longrightarrow>
   filter (\<lambda>p. fst p = entry_id (qs ! i)) (concat groups) = groups ! i"
proof (induction qs groups arbitrary: i rule: list_all2_induct)
  case Nil
  then show ?case by simp
next
  case (Cons q qs grp groups)
  show ?case
  proof (cases i)
    case 0
    have "entry_id q \<notin> entry_id ` set qs" using Cons.prems(1) by simp
    then have "filter (\<lambda>p. fst p = entry_id q) (concat groups) = []"
      using filter_other_groups [OF Cons.hyps(2)] by blast
    then show ?thesis using 0 Cons.hyps(1) by (simp add: filter_keyed)
  next
    case (Suc j)
    then have j: "j < length qs" using Cons.prems(2) by simp
    have d: "distinct (map entry_id qs)" using Cons.prems(1) by simp
    have "entry_id (qs ! j) \<in> entry_id ` set qs" using j by simp
    then have ne: "entry_id (qs ! j) \<noteq> entry_id q" using Cons.prems(1) by auto
    have "filter (\<lambda>p. fst p = entry_id (qs ! j)) (concat groups) = groups ! j"
      using Cons.IH [OF d j] .
    then show ?thesis using Suc ne Cons.hyps(1) by (simp add: filter_keyed)
  qed
qed

lemma build_post_data_shape:
  "\<exists>g'. build_post_data fs g =
     Inr ((''fbzx'', fbzx fs)
          # (case page_history fs of
               None \<Rightarrow> []
             | Some s \<Rightarrow> if s = [] then [] else [(''pageHistory'', Some s)])
          @ concat (question_groups (questions fs) g), g')"
proof (cases "page_history fs")
  case None
  then show ?thesis
    using answer_questions_append [of "questions fs" "[(''fbzx'', fbzx fs)]" g]
    by (simp add: build_post_data_def truthy_def)
next
  case (Some s)
  show ?thesis
  proof (cases "s = []")
    case True
    then show ?thesis
      using Some answer_questions_append [of "questions fs" "[(''fbzx'', fbzx fs)]" g]
      by (simp add: build_post_data_def truthy_def)
  next
    case False
    then show ?thesis
      using Some answer_questions_append
        [of "questions fs" "[(''fbzx'', fbzx fs), (''pageHistory'', Some s)]" g]
      by (simp add: build_post_data_def truthy_def)
  qed
qed

text \<open>
  Claim C2 says that the page-sequence pair is emitted if the schema has a page-sequence token.
  \<^verbatim>\<open>build_post_data\<close> tests the token for truthiness: a schema whose \<^verbatim>\<open>page_history\<close> is
  the empty string (the hidden input of the page carries an empty value) has the field, and
  its payload is the anti-spam pair alone.
\<close>

theorem empty_page_history_not_emitted:
  "page_history \<lparr>action_url = ''https://docs.google.com/forms/d/e/x/formResponse'',
                  fbzx = Some ''123'', page_history = Some [], questions = []\<rparr> = Some []
   \<and> build_post_data \<lparr>action_url = ''https://docs.google.com/forms/d/e/x/formResponse'',
                        fbzx = Some ''123'', page_history = Some [], questions = []\<rparr> (sconst 0)
       = Inr ([(''fbzx'', Some ''123'')], sconst 0)"
  by (simp add: build_post_data_def truthy_def)

text \<open>
  Claim C2, as amended. For every form structure and every state of the generator,
  \<^verbatim>\<open>build_post_data\<close> returns, and its payload is: the pair of \<^verbatim>\<open>fbzx\<close> first; then the pair of
  \<^verbatim>\<open>pageHistory\<close> if the page history of the schema is there and is not the empty string, and
  nothing otherwise; then the groups of pairs of the questions, one group for each question
  and in the order of the questions, the pairs of a group all having the entry id of its
  question as their key (a group can be empty).
\<close>

theorem payload_order:
  "\<exists>g'. build_post_data fs g =
     Inr ((''fbzx'', fbzx fs)
          # (case page_history fs of
               None \<Rightarrow> []
             | Some s \<Rightarrow> if s = [] then [] else [(''pageHistory'', Some s)])
          @ concat (question_groups (questions fs) g), g')
     \<and> length (question_groups (questions fs) g) = length (questions fs)
     \<and> list_all2 keyed_by (questions fs) (question_groups (questions fs) g)"
  using build_post_data_shape [of fs g]
  by (simp add: length_question_groups question_groups_keyed)

lemma keyed_by_fst: "keyed_by q grp \<Longrightarrow> p \<in> set grp \<Longrightarrow> fst p = entry_id q"
  by (simp add: keyed_by_def list_all_iff)

lemma keys_of_groups:
  "list_all2 keyed_by qs groups \<Longrightarrow> p \<in> set (concat groups) \<Longrightarrow> fst p \<in> entry_id ` set qs"
proof (induction qs groups rule: list_all2_induct)
  case Nil
  then show ?case by simp
next
  case (Cons q qs grp groups)
  from Cons.prems have "p \<in> set grp \<or> p \<in> set (concat groups)" by simp
  then show ?case
  proof
    assume "p \<in> set grp"
    then have "fst p = entry_id q" using Cons.hyps(1) by (rule keyed_by_fst [rotated])
    then show ?thesis by simp
  next
    assume "p \<in> set (concat groups)"
    then have "fst p \<in> entry_id ` set qs" by (rule Cons.IH)
    then show ?thesis by simp
  qed
qed


lemma answer_no_options:
  assumes "options q = []"
    and "q_type q = ''radio'' \<or> q_type q = ''dropdown'' \<or> q_type q = ''scale'' \<or> q_type q = ''checkbox''"
  shows "answer_question q data g = Inr (data, g)"
proof -
  have m: "random_multiple (options q) g = Inr ([], g)"
    using assms(1) by (simp add: random_multiple_def)
  from assms(2) show ?thesis
  proof (elim disjE)
    assume "q_type q = ''radio''"
    then show ?thesis using assms(1) by (simp add: answer_question_def)
  next
    assume "q_type q = ''dropdown''"
    then show ?thesis using assms(1) by (simp add: answer_question_def)
  next
    assume "q_type q = ''scale''"
    then show ?thesis using assms(1) by (simp add: answer_question_def)
  next
    assume "q_type q = ''checkbox''"
    then show ?thesis using m by (simp add: answer_question_def)
  qed
qed

lemma answer_checkbox:
  assumes "q_type q = ''checkbox''" and "random_multiple (options q) g = Inr (sel, g')"
  shows "answer_question q data g = Inr (data @ map (\<lambda>v. (entry_id q, Some v)) sel, g')"
  using assms by (simp add: answer_question_def foldl_append_pairs)

lemma filter_payload:
  assumes d: "distinct (map entry_id qs)" and f: "''fbzx'' \<notin> entry_id ` set qs"
    and h: "''pageHistory'' \<notin> entry_id ` set qs" and i: "i < length qs"
  shows "filter (\<lambda>p. fst p = entry_id (qs ! i))
           ((''fbzx'', x) # (case ph of None \<Rightarrow> []
                            | Some s \<Rightarrow> if s = [] then [] else [(''pageHistory'', Some s)])
            @ concat (question_groups qs g))
         = question_pairs (qs ! i) (question_rngs qs g ! i)"
proof -
  have m: "entry_id (qs ! i) \<in> entry_id ` set qs" using i by simp
  have n1: "''fbzx'' \<noteq> entry_id (qs ! i)"
  proof
    assume "''fbzx'' = entry_id (qs ! i)"
    then show False using f m by simp
  qed
  have n2: "''pageHistory'' \<noteq> entry_id (qs ! i)"
  proof
    assume "''pageHistory'' = entry_id (qs ! i)"
    then show False using h m by simp
  qed
  have ph: "filter (\<lambda>p. fst p = entry_id (qs ! i))
      (case ph of None \<Rightarrow> [] | Some s \<Rightarrow> if s = [] then [] else [(''pageHistory'', Some s)]) = []"
    using n2 by (cases ph) simp_all
  have "filter (\<lambda>p. fst p = entry_id (qs ! i)) (concat (question_groups qs g))
        = question_groups qs g ! i"
    using filter_groups [OF question_groups_keyed d i] .
  also have "\<dots> = question_pairs (qs ! i) (question_rngs qs g ! i)"
    using question_groups_nth [OF i] .
  finally show ?thesis using n1 ph by simp
qed

text \<open>
  Claim C3. A question of type radio, dropdown, scale or checkbox whose list of options is
  empty leaves the payload as it is and raises nothing. A checkbox question for which
  \<open>random_multiple\<close> selected \<open>sel\<close> appends one pair for every element of \<open>sel\<close>, in that
  order, each with the entry id of the question as its key: \<open>length sel\<close> pairs. In the payload
  of a form structure whose questions have different entry ids, none of them \<^verbatim>\<open>fbzx\<close> or
  \<^verbatim>\<open>pageHistory\<close>, the pairs under the entry id of a question are the pairs of that question
  and no others.
\<close>

theorem choice_question_pairs:
  "(q_type q \<in> {''radio'', ''dropdown'', ''scale'', ''checkbox''} \<and> options q = [] \<longrightarrow>
      answer_question q data g = Inr (data, g) \<and> question_pairs q g = [])
   \<and> (q_type q = ''checkbox'' \<and> random_multiple (options q) g = Inr (sel, g') \<longrightarrow>
      answer_question q data g = Inr (data @ map (\<lambda>v. (entry_id q, Some v)) sel, g')
      \<and> question_pairs q g = map (\<lambda>v. (entry_id q, Some v)) sel
      \<and> length (question_pairs q g) = length sel)
   \<and> (\<exists>post_data gf. build_post_data fs g = Inr (post_data, gf)
      \<and> (distinct (map entry_id (questions fs))
          \<and> ''fbzx'' \<notin> entry_id ` set (questions fs)
          \<and> ''pageHistory'' \<notin> entry_id ` set (questions fs)
          \<and> i < length (questions fs) \<longrightarrow>
          filter (\<lambda>p. fst p = entry_id (questions fs ! i)) post_data
            = question_pairs (questions fs ! i) (question_rngs (questions fs) g ! i)))"
proof -
  have empty: "q_type q \<in> {''radio'', ''dropdown'', ''scale'', ''checkbox''} \<and> options q = [] \<longrightarrow>
      answer_question q data g = Inr (data, g) \<and> question_pairs q g = []"
  proof
    assume a: "q_type q \<in> {''radio'', ''dropdown'', ''scale'', ''checkbox''} \<and> options q = []"
    then have o: "options q = []" and t: "q_type q = ''radio'' \<or> q_type q = ''dropdown''
        \<or> q_type q = ''scale'' \<or> q_type q = ''checkbox''" by simp_all
    have "answer_question q [] g = Inr ([], g)" using answer_no_options [OF o t] .
    then have "question_pairs q g = []" by (simp add: question_pairs_def)
    then show "answer_question q data g = Inr (data, g) \<and> question_pairs q g = []"
      using answer_no_options [OF o t, of data g] by simp
  qed
  have multi: "q_type q = ''checkbox'' \<and> random_multiple (options q) g = Inr (sel, g') \<longrightarrow>
      answer_question q data g = Inr (data @ map (\<lambda>v. (entry_id q, Some v)) sel, g')
      \<and> question_pairs q g = map (\<lambda>v. (entry_id q, Some v)) sel
      \<and> length (question_pairs q g) = length sel"
  proof
    assume a: "q_type q = ''checkbox'' \<and> random_multiple (options q) g = Inr (sel, g')"
    then have c: "q_type q = ''checkbox''" and m: "random_multiple (options q) g = Inr (sel, g')"
      by simp_all
    have "answer_question q [] g = Inr ([] @ map (\<lambda>v. (entry_id q, Some v)) sel, g')"
      using answer_checkbox [OF c m] .
    then have p: "question_pairs q g = map (\<lambda>v. (entry_id q, Some v)) sel"
      by (simp add: question_pairs_def)
    show "answer_question q data g = Inr (data @ map (\<lambda>v. (entry_id q, Some v)) sel, g')
      \<and> question_pairs q g = map (\<lambda>v. (entry_id q, Some v)) sel
      \<and> length (question_pairs q g) = length sel"
      using answer_checkbox [OF c m, of data] p by simp
  qed
  let ?qs = "questions fs"
  obtain gf where b: "build_post_data fs g
      = Inr ((''fbzx'', fbzx fs) # (case page_history fs of None \<Rightarrow> []
             | Some s \<Rightarrow> if s = [] then [] else [(''pageHistory'', Some s)])
             @ concat (question_groups ?qs g), gf)"
    using build_post_data_shape [of fs g] by blast
  have whole: "distinct (map entry_id ?qs) \<and> ''fbzx'' \<notin> entry_id ` set ?qs
          \<and> ''pageHistory'' \<notin> entry_id ` set ?qs \<and> i < length ?qs \<longrightarrow>
          filter (\<lambda>p. fst p = entry_id (?qs ! i))
            ((''fbzx'', fbzx fs) # (case page_history fs of None \<Rightarrow> []
             | Some s \<Rightarrow> if s = [] then [] else [(''pageHistory'', Some s)])
             @ concat (question_groups ?qs g))
          = question_pairs (?qs ! i) (question_rngs ?qs g ! i)"
    using filter_payload [of ?qs i "fbzx fs" "page_history fs" g] by blast
  have third: "\<exists>post_data gf. build_post_data fs g = Inr (post_data, gf)
      \<and> (distinct (map entry_id ?qs) \<and> ''fbzx'' \<notin> entry_id ` set ?qs
          \<and> ''pageHistory'' \<notin> entry_id ` set ?qs \<and> i < length ?qs \<longrightarrow>
          filter (\<lambda>p. fst p = entry_id (?qs ! i)) post_data
            = question_pairs (?qs ! i) (question_rngs ?qs g ! i))"
    using b whole by (intro exI conjI) assumption+
  show ?thesis using empty multi third by (intro conjI) assumption+
qed

theorem choice_question_pairs_witness:
  "q_type \<lparr>entry_id = ''entry.1'', q_type = ''radio'', options = []\<rparr>
       \<in> {''radio'', ''dropdown'', ''scale'', ''checkbox''}
   \<and> options \<lparr>entry_id = ''entry.1'', q_type = ''radio'', options = []\<rparr> = []
   \<and> answer_question \<lparr>entry_id = ''entry.1'', q_type = ''radio'', options = []\<rparr>
         [(''fbzx'', Some ''123'')] (1 ## 1 ## 2 ## sconst 0)
       = Inr ([(''fbzx'', Some ''123'')], 1 ## 1 ## 2 ## sconst 0)
   \<and> q_type \<lparr>entry_id = ''entry.2'', q_type = ''checkbox'',
               options = [''A'', ''B'', ''C'', ''D'']\<rparr> = ''checkbox''
   \<and> random_multiple (options \<lparr>entry_id = ''entry.2'', q_type = ''checkbox'',
                                  options = [''A'', ''B'', ''C'', ''D'']\<rparr>)
         (1 ## 1 ## 2 ## sconst 0) = Inr ([''B'', ''D''], sconst 0)
   \<and> answer_question \<lparr>entry_id = ''entry.2'', q_type = ''checkbox'',
                         options = [''A'', ''B'', ''C'', ''D'']\<rparr>
         [(''fbzx'', Some ''123'')] (1 ## 1 ## 2 ## sconst 0)
       = Inr ([(''fbzx'', Some ''123''), (''entry.2'', Some ''B''), (''entry.2'', Some ''D'')],
              sconst 0)
   \<and> distinct [''entry.1'', ''entry.2'']
   \<and> (\<exists>post_data gf.
         build_post_data
           \<lparr>action_url = ''https://docs.google.com/forms/d/e/x/formResponse'',
            fbzx = Some ''123'', page_history = None,
            questions = [\<lparr>entry_id = ''entry.1'', q_type = ''radio'', options = []\<rparr>,
                         \<lparr>entry_id = ''entry.2'', q_type = ''checkbox'',
                          options = [''A'', ''B'', ''C'', ''D'']\<rparr>]\<rparr>
           (1 ## 1 ## 2 ## sconst 0) = Inr (post_data, gf)
         \<and> filter (\<lambda>p. fst p = ''entry.1'') post_data = []
         \<and> filter (\<lambda>p. fst p = ''entry.2'') post_data
             = [(''entry.2'', Some ''B''), (''entry.2'', Some ''D'')])"
proof -
  let ?q1 = "\<lparr>entry_id = ''entry.1'', q_type = ''radio'', options = []\<rparr>"
  let ?q2 = "\<lparr>entry_id = ''entry.2'', q_type = ''checkbox'', options = [''A'', ''B'', ''C'', ''D'']\<rparr>"
  let ?fs = "\<lparr>action_url = ''https://docs.google.com/forms/d/e/x/formResponse'',
            fbzx = Some ''123'', page_history = None, questions = [?q1, ?q2]\<rparr>"
  let ?g = "1 ## 1 ## 2 ## sconst 0"
  let ?d = "[(''fbzx'', Some ''123'')]"
  have h1: "q_type ?q1 \<in> {''radio'', ''dropdown'', ''scale'', ''checkbox''}" by simp
  have h2: "options ?q1 = []" by simp
  have h3: "q_type ?q2 = ''checkbox''" by simp
  have h4: "random_multiple (options ?q2) ?g = Inr ([''B'', ''D''], sconst 0)"
    by (simp add: random_multiple_def randint_def randbelow_def sample_def remove_nth_def
        numeral_2_eq_2)
  have h5: "distinct (map entry_id (questions ?fs))" by simp
  have h6: "''fbzx'' \<notin> entry_id ` set (questions ?fs)" by simp
  have h7: "''pageHistory'' \<notin> entry_id ` set (questions ?fs)" by simp
  have i0: "0 < length (questions ?fs)" by simp
  have i1: "1 < length (questions ?fs)" by simp
  note t0 = choice_question_pairs [where q = ?q1 and data = ?d and g = ?g and fs = ?fs and i = 0]
  note t1 = choice_question_pairs [where q = ?q2 and data = ?d and g = ?g and sel = "[''B'', ''D'']"
      and g' = "sconst 0" and fs = ?fs and i = 1]
  have a: "answer_question ?q1 ?d ?g = Inr (?d, ?g)" and a': "question_pairs ?q1 ?g = []"
    using t0 h1 h2 by blast+
  have b: "answer_question ?q2 ?d ?g
      = Inr (?d @ map (\<lambda>v. (entry_id ?q2, Some v)) [''B'', ''D''], sconst 0)"
    and b': "question_pairs ?q2 ?g = map (\<lambda>v. (entry_id ?q2, Some v)) [''B'', ''D'']"
    using t1 h3 h4 by blast+
  have r: "question_rng ?q1 ?g = ?g" by (simp add: question_rng_def answer_question_def)
  obtain post_data gf where p: "build_post_data ?fs ?g = Inr (post_data, gf)"
    and f1: "filter (\<lambda>p. fst p = entry_id (questions ?fs ! 1)) post_data
        = question_pairs (questions ?fs ! 1) (question_rngs (questions ?fs) ?g ! 1)"
    using t1 h5 h6 h7 i1 by blast
  obtain post_data' gf' where p': "build_post_data ?fs ?g = Inr (post_data', gf')"
    and f0: "filter (\<lambda>p. fst p = entry_id (questions ?fs ! 0)) post_data'
        = question_pairs (questions ?fs ! 0) (question_rngs (questions ?fs) ?g ! 0)"
    using t0 h5 h6 h7 i0 by blast
  have same: "post_data' = post_data" using p p' by simp
  have e0: "filter (\<lambda>p. fst p = ''entry.1'') post_data = []"
    using f0 a' same by simp
  have e1: "filter (\<lambda>p. fst p = ''entry.2'') post_data
      = [(''entry.2'', Some ''B''), (''entry.2'', Some ''D'')]"
    using f1 b' r by simp
  have c: "\<exists>post_data gf. build_post_data ?fs ?g = Inr (post_data, gf)
         \<and> filter (\<lambda>p. fst p = ''entry.1'') post_data = []
         \<and> filter (\<lambda>p. fst p = ''entry.2'') post_data
             = [(''entry.2'', Some ''B''), (''entry.2'', Some ''D'')]"
    using p e0 e1 by blast
  have b2: "answer_question ?q2 ?d ?g
      = Inr ([(''fbzx'', Some ''123''), (''entry.2'', Some ''B''), (''entry.2'', Some ''D'')],
             sconst 0)"
    using b by simp
  have d: "distinct [''entry.1'', ''entry.2'']" by simp
  show ?thesis using h1 h2 a h3 h4 b2 d c by (intro conjI) assumption+
qed

lemma page_history_not_in_groups:
  assumes "''pageHistory'' \<notin> entry_id ` set qs" and "p \<in> set (concat (question_groups qs g))"
  shows "fst p \<noteq> ''pageHistory''"
proof
  assume e: "fst p = ''pageHistory''"
  have "fst p \<in> entry_id ` set qs"
    using keys_of_groups [OF question_groups_keyed assms(2)] .
  then show False using assms(1) e by simp
qed

lemma page_history_key_groups:
  assumes "''pageHistory'' \<notin> entry_id ` set qs"
  shows "''pageHistory'' \<notin> fst ` set (concat (question_groups qs g))"
proof
  assume "''pageHistory'' \<in> fst ` set (concat (question_groups qs g))"
  then obtain p where p: "''pageHistory'' = fst p" "p \<in> set (concat (question_groups qs g))"
    by (rule imageE)
  show False using page_history_not_in_groups [OF assms p(2)] p(1) by simp
qed

lemma page_history_pair_groups:
  assumes "''pageHistory'' \<notin> entry_id ` set qs"
  shows "(''pageHistory'', v) \<notin> set (concat (question_groups qs g))"
proof
  assume "(''pageHistory'', v) \<in> set (concat (question_groups qs g))"
  then have "fst (''pageHistory'', v) \<noteq> ''pageHistory''"
    by (rule page_history_not_in_groups [OF assms])
  then show False by simp
qed


lemma page_history_key:
  assumes "''pageHistory'' \<notin> entry_id ` set qs"
  shows "(''pageHistory'' \<in> fst ` set ((''fbzx'', x) # (case ph of None \<Rightarrow> []
             | Some s \<Rightarrow> if s = [] then [] else [(''pageHistory'', Some s)])
             @ concat (question_groups qs g))) = (\<exists>s. ph = Some s \<and> s \<noteq> [])"
proof -
  note b = page_history_key_groups [OF assms, of g]
  show ?thesis
  proof (cases ph)
    case None
    have "''pageHistory'' \<notin> fst ` set ((''fbzx'', x) # [] @ concat (question_groups qs g))"
      using b by simp
    then show ?thesis using None by simp
  next
    case (Some s)
    show ?thesis
    proof (cases "s = []")
      case True
      have "''pageHistory'' \<notin> fst ` set ((''fbzx'', x) # [] @ concat (question_groups qs g))"
        using b by simp
      then show ?thesis using Some True by simp
    next
      case False
      have "''pageHistory'' \<in> fst ` set ((''fbzx'', x) # [(''pageHistory'', Some s)]
          @ concat (question_groups qs g))"
        by simp
      then show ?thesis using Some False by simp
    qed
  qed
qed


lemma page_history_pair:
  assumes "''pageHistory'' \<notin> entry_id ` set qs"
  shows "((''pageHistory'', ph) \<in> set ((''fbzx'', x) # (case ph of None \<Rightarrow> []
             | Some s \<Rightarrow> if s = [] then [] else [(''pageHistory'', Some s)])
             @ concat (question_groups qs g))) = (\<exists>s. ph = Some s \<and> s \<noteq> [])"
proof -
  note b = page_history_pair_groups [OF assms, of ph g]
  show ?thesis
  proof (cases ph)
    case None
    have "(''pageHistory'', ph) \<notin> set ((''fbzx'', x) # [] @ concat (question_groups qs g))"
      using b by simp
    then show ?thesis using None by simp
  next
    case (Some s)
    show ?thesis
    proof (cases "s = []")
      case True
      have "(''pageHistory'', ph) \<notin> set ((''fbzx'', x) # [] @ concat (question_groups qs g))"
        using b by simp
      then show ?thesis using Some True by simp
    next
      case False
      have "(''pageHistory'', ph) \<in> set ((''fbzx'', x) # [(''pageHistory'', Some s)]
          @ concat (question_groups qs g))"
        using Some by simp
      then show ?thesis using Some False by simp
    qed
  qed
qed

text \<open>
  Claim C10. For a form structure no question of which has the entry id \<^verbatim>\<open>pageHistory\<close>, the
  payload has a pair with the key \<^verbatim>\<open>pageHistory\<close> if and only if the page history of the
  schema is there and is not the empty string, and then the pair carries the page history. A
  schema whose page history is the empty string gives a payload with no such key.
\<close>

theorem page_history_pair_iff_truthy:
  assumes "''pageHistory'' \<notin> entry_id ` set (questions fs)"
  shows "\<exists>post_data g'. build_post_data fs g = Inr (post_data, g')
     \<and> ((''pageHistory'' \<in> fst ` set post_data) = (\<exists>s. page_history fs = Some s \<and> s \<noteq> []))
     \<and> (((''pageHistory'', page_history fs) \<in> set post_data)
          = (\<exists>s. page_history fs = Some s \<and> s \<noteq> []))"
proof -
  obtain g' where b: "build_post_data fs g = Inr ((''fbzx'', fbzx fs) #
       (case page_history fs of None \<Rightarrow> []
        | Some s \<Rightarrow> if s = [] then [] else [(''pageHistory'', Some s)])
       @ concat (question_groups (questions fs) g), g')"
    using build_post_data_shape [of fs g] by blast
  note k = page_history_key [OF assms, of "fbzx fs" "page_history fs" g]
  note p = page_history_pair [OF assms, of "page_history fs" "fbzx fs" g]
  show ?thesis using b k p by (intro exI conjI) assumption+
qed

theorem page_history_pair_iff_truthy_witness:
  "''pageHistory'' \<notin> entry_id ` set [\<lparr>entry_id = ''entry.1'', q_type = ''radio'', options = []\<rparr>]
   \<and> (\<exists>post_data g'.
         build_post_data
           \<lparr>action_url = ''https://docs.google.com/forms/d/e/x/formResponse'',
            fbzx = Some ''123'', page_history = Some [],
            questions = [\<lparr>entry_id = ''entry.1'', q_type = ''radio'', options = []\<rparr>]\<rparr>
           (sconst 0) = Inr (post_data, g')
         \<and> ''pageHistory'' \<notin> fst ` set post_data)
   \<and> (\<exists>post_data g'.
         build_post_data
           \<lparr>action_url = ''https://docs.google.com/forms/d/e/x/formResponse'',
            fbzx = Some ''123'', page_history = Some ''0'',
            questions = [\<lparr>entry_id = ''entry.1'', q_type = ''radio'', options = []\<rparr>]\<rparr>
           (sconst 0) = Inr (post_data, g')
         \<and> ''pageHistory'' \<in> fst ` set post_data
         \<and> (''pageHistory'', Some ''0'') \<in> set post_data)
   \<and> (\<exists>post_data g'.
         build_post_data
           \<lparr>action_url = ''https://docs.google.com/forms/d/e/x/formResponse'',
            fbzx = Some ''123'', page_history = None,
            questions = [\<lparr>entry_id = ''entry.1'', q_type = ''radio'', options = []\<rparr>]\<rparr>
           (sconst 0) = Inr (post_data, g')
         \<and> ''pageHistory'' \<notin> fst ` set post_data)"
proof -
  let ?qs = "[\<lparr>entry_id = ''entry.1'', q_type = ''radio'', options = []\<rparr>]"
  let ?fs = "\<lambda>ph. \<lparr>action_url = ''https://docs.google.com/forms/d/e/x/formResponse'',
            fbzx = Some ''123'', page_history = ph, questions = ?qs\<rparr>"
  have h: "''pageHistory'' \<notin> entry_id ` set ?qs" by simp
  have hq: "\<And>ph. ''pageHistory'' \<notin> entry_id ` set (questions (?fs ph))" by simp
  note t1 = page_history_pair_iff_truthy [OF hq [of "Some []"], of "sconst 0"]
  note t2 = page_history_pair_iff_truthy [OF hq [of "Some ''0''"], of "sconst 0"]
  note t3 = page_history_pair_iff_truthy [OF hq [of None], of "sconst 0"]
  have n1: "\<not> (\<exists>s. page_history (?fs (Some [])) = Some s \<and> s \<noteq> [])" by simp
  have n2: "\<exists>s. page_history (?fs (Some ''0'')) = Some s \<and> s \<noteq> []" by simp
  have n3: "\<not> (\<exists>s. page_history (?fs None) = Some s \<and> s \<noteq> [])" by simp
  have p2: "page_history (?fs (Some ''0'')) = Some ''0''" by simp
  have c1: "\<exists>post_data g'. build_post_data (?fs (Some [])) (sconst 0) = Inr (post_data, g')
         \<and> ''pageHistory'' \<notin> fst ` set post_data"
    using t1 n1 by blast
  have c2: "\<exists>post_data g'. build_post_data (?fs (Some ''0'')) (sconst 0) = Inr (post_data, g')
         \<and> ''pageHistory'' \<in> fst ` set post_data
         \<and> (''pageHistory'', Some ''0'') \<in> set post_data"
    using t2 n2 unfolding p2 by blast
  have c3: "\<exists>post_data g'. build_post_data (?fs None) (sconst 0) = Inr (post_data, g')
         \<and> ''pageHistory'' \<notin> fst ` set post_data"
    using t3 n3 by blast
  show ?thesis using h c1 c2 c3 by (intro conjI) assumption+
qed

section \<open>Classifying the containers\<close>

text \<open>
  The entry id of a container that has a named element begins with \<^verbatim>\<open>entry.\<close>, and a container
  that has none is skipped; the type is set by the first block of the chain that finds its
  elements.
\<close>

lemma split_first_entry:
  assumes "prefix ''entry.'' x"
  shows "prefix ''entry.'' (split_first x) \<and> split_first x \<noteq> []"
proof -
  obtain r where "x = ''entry.'' @ r" using assms by (rule prefixE)
  then show ?thesis by (simp add: split_first_def)
qed

lemma named_element:
  assumes "n \<in> set (find_elements qc (CSS_SELECTOR t [Attr_prefix ''name'' ''entry.'']))"
  shows "\<exists>x. get_attribute n ''name'' = Some x \<and> prefix ''entry.'' x"
proof -
  have "attr_holds n (Attr_prefix ''name'' ''entry.'')"
    using assms by (simp add: find_elements_def)
  then show ?thesis by (cases "get_attribute n ''name''") simp_all
qed

lemma container_entry_id_named:
  assumes "find_elements qc (CSS_SELECTOR None [Attr_prefix ''name'' ''entry.'']) = n # ns"
  shows "\<exists>x. get_attribute n ''name'' = Some x \<and> prefix ''entry.'' x
     \<and> container_entry_id qc = Inr (Some (split_first x))"
proof -
  have "n \<in> set (find_elements qc (CSS_SELECTOR None [Attr_prefix ''name'' ''entry.'']))"
    using assms by simp
  then obtain x where x: "get_attribute n ''name'' = Some x" "prefix ''entry.'' x"
    using named_element by blast
  have "container_entry_id qc = Inr (Some (split_first x))"
    using assms x(1) by (simp add: container_entry_id_def)
  then show ?thesis using x by blast
qed

lemma no_named_element:
  assumes "\<forall>e \<in> set (descendants qc). \<forall>x. get_attribute e ''name'' = Some x \<longrightarrow> \<not> prefix ''entry.'' x"
  shows "find_elements qc (CSS_SELECTOR t [Attr_prefix ''name'' ''entry.'']) = []"
proof -
  have "\<forall>e \<in> set (descendants qc). \<not> matches (CSS_SELECTOR t [Attr_prefix ''name'' ''entry.'']) e"
  proof
    fix e assume e: "e \<in> set (descendants qc)"
    show "\<not> matches (CSS_SELECTOR t [Attr_prefix ''name'' ''entry.'']) e"
    proof (cases "get_attribute e ''name''")
      case None
      then show ?thesis by simp
    next
      case (Some x)
      then have "\<not> prefix ''entry.'' x" using assms e by blast
      then show ?thesis using Some by simp
    qed
  qed
  then show ?thesis by (simp add: find_elements_def filter_empty_conv)
qed

lemma container_entry_id_none:
  assumes "\<forall>e \<in> set (descendants qc). \<forall>x. get_attribute e ''name'' = Some x \<longrightarrow> \<not> prefix ''entry.'' x"
  shows "container_entry_id qc = Inr None"
  using no_named_element [OF assms, of None] no_named_element [OF assms, of "Some ''select''"]
  by (simp add: container_entry_id_def)

lemma extract_container_skip:
  assumes "container_entry_id qc = Inr None"
  shows "extract_container qc qs = Inr qs"
  using assms by (simp add: extract_container_def truthy_def split: prod.splits)

lemma extract_containers_append:
  "extract_containers (cs1 @ cs2) qs =
     (case extract_containers cs1 qs of Inl e \<Rightarrow> Inl e | Inr qs' \<Rightarrow> extract_containers cs2 qs')"
  by (induction cs1 arbitrary: qs) (simp_all split: sum.splits)

lemma extract_containers_skip:
  assumes "container_entry_id qc = Inr None"
  shows "extract_containers (cs1 @ qc # cs2) qs = extract_containers (cs1 @ cs2) qs"
  using extract_container_skip [OF assms]
  by (simp add: extract_containers_append split: sum.splits)

lemma detect_type_radio:
  assumes "find_elements qc (CSS_SELECTOR (Some ''div'') [Attr_eq ''role'' ''radio'']) \<noteq> []"
  shows "detect_type qc = (Some ''radio'',
     (if attr_values ''data-value'' (find_elements qc (CSS_SELECTOR (Some ''div'') [Attr_eq ''role'' ''radio''])) = []
      then attr_values ''aria-label'' (find_elements qc (CSS_SELECTOR (Some ''div'') [Attr_eq ''role'' ''radio'']))
      else attr_values ''data-value'' (find_elements qc (CSS_SELECTOR (Some ''div'') [Attr_eq ''role'' ''radio'']))))"
  using assms by (simp add: detect_type_def Let_def)

lemma detect_type_dropdown:
  assumes "find_elements qc (CSS_SELECTOR (Some ''div'') [Attr_eq ''role'' ''radio'']) = []"
    and "find_elements qc (CSS_SELECTOR (Some ''div'') [Attr_eq ''role'' ''checkbox'']) = []"
    and "find_elements qc (TAG_NAME ''select'') = s # ss"
  shows "detect_type qc = (Some ''dropdown'', attr_values ''value'' (find_elements s (TAG_NAME ''option'')))"
  using assms by (simp add: detect_type_def Let_def)

lemma attr_values_filter:
  "attr_values a es = map the (filter truthy (map (\<lambda>e. get_attribute e a) es))"
  by (induction es) (simp_all add: attr_values_def truthy_def split: option.splits)

lemma extract_container_question:
  assumes "container_entry_id qc = Inr (Some eid)" and "eid \<noteq> []"
    and "detect_type qc = (Some ty, opts)" and "ty \<noteq> []"
  shows "extract_container qc qs = Inr (qs @ [\<lparr>entry_id = eid, q_type = ty, options = opts\<rparr>])"
  using assms by (simp add: extract_container_def truthy_def)

text \<open>
  Claim C6. A container that has elements \<^verbatim>\<open>div[role="radio"]\<close> and a named element is given the
  type \<^verbatim>\<open>radio\<close>, whatever elements \<^verbatim>\<open>div[role="checkbox"]\<close> it has as well: its options are
  read off the radio elements alone (their \<^verbatim>\<open>data-value\<close>, or their \<^verbatim>\<open>aria-label\<close> when none
  has a \<^verbatim>\<open>data-value\<close>), and the question appended for it has that type, those options and
  an entry id that begins with \<^verbatim>\<open>entry.\<close>.
\<close>

theorem radio_priority:
  assumes "find_elements qc (CSS_SELECTOR (Some ''div'') [Attr_eq ''role'' ''radio'']) \<noteq> []"
    and "find_elements qc (CSS_SELECTOR None [Attr_prefix ''name'' ''entry.'']) \<noteq> []"
  shows "fst (detect_type qc) = Some ''radio''
    \<and> snd (detect_type qc) =
        (if attr_values ''data-value''
              (find_elements qc (CSS_SELECTOR (Some ''div'') [Attr_eq ''role'' ''radio''])) = []
         then attr_values ''aria-label''
              (find_elements qc (CSS_SELECTOR (Some ''div'') [Attr_eq ''role'' ''radio'']))
         else attr_values ''data-value''
              (find_elements qc (CSS_SELECTOR (Some ''div'') [Attr_eq ''role'' ''radio''])))
    \<and> (\<exists>eid. extract_container qc qs
          = Inr (qs @ [\<lparr>entry_id = eid, q_type = ''radio'', options = snd (detect_type qc)\<rparr>])
        \<and> prefix ''entry.'' eid)"
proof -
  note d = detect_type_radio [OF assms(1)]
  obtain n ns where "find_elements qc (CSS_SELECTOR None [Attr_prefix ''name'' ''entry.'']) = n # ns"
    using assms(2) by (cases "find_elements qc (CSS_SELECTOR None [Attr_prefix ''name'' ''entry.''])")
      simp_all
  then obtain x where x: "prefix ''entry.'' x" "container_entry_id qc = Inr (Some (split_first x))"
    using container_entry_id_named by blast
  note e = split_first_entry [OF x(1)]
  have dt: "detect_type qc = (Some ''radio'', snd (detect_type qc))" using d by simp
  have "extract_container qc qs
      = Inr (qs @ [\<lparr>entry_id = split_first x, q_type = ''radio'', options = snd (detect_type qc)\<rparr>])"
    using extract_container_question [OF x(2) _ dt] e by simp
  then have "\<exists>eid. extract_container qc qs
          = Inr (qs @ [\<lparr>entry_id = eid, q_type = ''radio'', options = snd (detect_type qc)\<rparr>])
        \<and> prefix ''entry.'' eid"
    using e by blast
  then show ?thesis using d by simp
qed

theorem radio_priority_witness:
  "find_elements
      (Element ''div'' [(''role'', ''listitem'')]
        [Element ''input'' [(''type'', ''hidden''), (''name'', ''entry.7_sentinel'')] [],
         Element ''div'' [(''role'', ''checkbox''), (''data-value'', ''X'')] [],
         Element ''div'' [(''role'', ''radio''), (''data-value'', ''Yes'')] [],
         Element ''div'' [(''role'', ''radio''), (''data-value'', ''No'')] []])
      (CSS_SELECTOR (Some ''div'') [Attr_eq ''role'' ''checkbox''])
     = [Element ''div'' [(''role'', ''checkbox''), (''data-value'', ''X'')] []]
   \<and> find_elements
      (Element ''div'' [(''role'', ''listitem'')]
        [Element ''input'' [(''type'', ''hidden''), (''name'', ''entry.7_sentinel'')] [],
         Element ''div'' [(''role'', ''checkbox''), (''data-value'', ''X'')] [],
         Element ''div'' [(''role'', ''radio''), (''data-value'', ''Yes'')] [],
         Element ''div'' [(''role'', ''radio''), (''data-value'', ''No'')] []])
      (CSS_SELECTOR (Some ''div'') [Attr_eq ''role'' ''radio'']) \<noteq> []
   \<and> find_elements
      (Element ''div'' [(''role'', ''listitem'')]
        [Element ''input'' [(''type'', ''hidden''), (''name'', ''entry.7_sentinel'')] [],
         Element ''div'' [(''role'', ''checkbox''), (''data-value'', ''X'')] [],
         Element ''div'' [(''role'', ''radio''), (''data-value'', ''Yes'')] [],
         Element ''div'' [(''role'', ''radio''), (''data-value'', ''No'')] []])
      (CSS_SELECTOR None [Attr_prefix ''name'' ''entry.'']) \<noteq> []
   \<and> detect_type
      (Element ''div'' [(''role'', ''listitem'')]
        [Element ''input'' [(''type'', ''hidden''), (''name'', ''entry.7_sentinel'')] [],
         Element ''div'' [(''role'', ''checkbox''), (''data-value'', ''X'')] [],
         Element ''div'' [(''role'', ''radio''), (''data-value'', ''Yes'')] [],
         Element ''div'' [(''role'', ''radio''), (''data-value'', ''No'')] []])
     = (Some ''radio'', [''Yes'', ''No''])
   \<and> (\<exists>eid. extract_container
      (Element ''div'' [(''role'', ''listitem'')]
        [Element ''input'' [(''type'', ''hidden''), (''name'', ''entry.7_sentinel'')] [],
         Element ''div'' [(''role'', ''checkbox''), (''data-value'', ''X'')] [],
         Element ''div'' [(''role'', ''radio''), (''data-value'', ''Yes'')] [],
         Element ''div'' [(''role'', ''radio''), (''data-value'', ''No'')] []]) []
       = Inr [\<lparr>entry_id = eid, q_type = ''radio'', options = [''Yes'', ''No'']\<rparr>]
      \<and> prefix ''entry.'' eid)"
proof -
  let ?qc = "Element ''div'' [(''role'', ''listitem'')]
        [Element ''input'' [(''type'', ''hidden''), (''name'', ''entry.7_sentinel'')] [],
         Element ''div'' [(''role'', ''checkbox''), (''data-value'', ''X'')] [],
         Element ''div'' [(''role'', ''radio''), (''data-value'', ''Yes'')] [],
         Element ''div'' [(''role'', ''radio''), (''data-value'', ''No'')] []]"
  have c: "find_elements ?qc (CSS_SELECTOR (Some ''div'') [Attr_eq ''role'' ''checkbox''])
      = [Element ''div'' [(''role'', ''checkbox''), (''data-value'', ''X'')] []]"
    by (simp add: find_elements_def get_attribute_def)
  have r: "find_elements ?qc (CSS_SELECTOR (Some ''div'') [Attr_eq ''role'' ''radio''])
      = [Element ''div'' [(''role'', ''radio''), (''data-value'', ''Yes'')] [],
         Element ''div'' [(''role'', ''radio''), (''data-value'', ''No'')] []]"
    by (simp add: find_elements_def get_attribute_def)
  have h1: "find_elements ?qc (CSS_SELECTOR (Some ''div'') [Attr_eq ''role'' ''radio'']) \<noteq> []"
    by (simp only: r) simp
  have n: "find_elements ?qc (CSS_SELECTOR None [Attr_prefix ''name'' ''entry.''])
      = [Element ''input'' [(''type'', ''hidden''), (''name'', ''entry.7_sentinel'')] []]"
    by (simp add: find_elements_def get_attribute_def)
  have h2: "find_elements ?qc (CSS_SELECTOR None [Attr_prefix ''name'' ''entry.'']) \<noteq> []"
    by (simp only: n) simp
  note t = radio_priority [OF h1 h2, of "[]"]
  have v: "attr_values ''data-value''
      [Element ''div'' [(''role'', ''radio''), (''data-value'', ''Yes'')] [],
       Element ''div'' [(''role'', ''radio''), (''data-value'', ''No'')] []] = [''Yes'', ''No'']"
    by (simp add: attr_values_def get_attribute_def)
  have s0: "snd (detect_type ?qc) =
        (if attr_values ''data-value''
              (find_elements ?qc (CSS_SELECTOR (Some ''div'') [Attr_eq ''role'' ''radio''])) = []
         then attr_values ''aria-label''
              (find_elements ?qc (CSS_SELECTOR (Some ''div'') [Attr_eq ''role'' ''radio'']))
         else attr_values ''data-value''
              (find_elements ?qc (CSS_SELECTOR (Some ''div'') [Attr_eq ''role'' ''radio''])))"
    using t by blast
  have s: "snd (detect_type ?qc) = [''Yes'', ''No'']"
    by (simp only: s0 r v) simp
  have f: "fst (detect_type ?qc) = Some ''radio''" using t by blast
  have d: "detect_type ?qc = (Some ''radio'', [''Yes'', ''No''])"
    using f s by (simp add: prod_eq_iff)
  have e0: "\<exists>eid. extract_container ?qc []
       = Inr ([] @ [\<lparr>entry_id = eid, q_type = ''radio'', options = snd (detect_type ?qc)\<rparr>])
      \<and> prefix ''entry.'' eid"
    using t by blast
  have e: "\<exists>eid. extract_container ?qc []
       = Inr [\<lparr>entry_id = eid, q_type = ''radio'', options = [''Yes'', ''No'']\<rparr>]
      \<and> prefix ''entry.'' eid"
    using e0 by (simp only: s append_Nil)
  show ?thesis using c h1 h2 d e by (intro conjI) assumption+
qed

text \<open>
  Claim C7. A container that has no element \<^verbatim>\<open>div[role="radio"]\<close> and no element
  \<^verbatim>\<open>div[role="checkbox"]\<close>, and has a \<^verbatim>\<open>select\<close> element, is given the type \<^verbatim>\<open>dropdown\<close>; its
  options are the \<^verbatim>\<open>value\<close> attributes of the \<^verbatim>\<open>option\<close> elements of its first \<^verbatim>\<open>select\<close>, in
  document order, without the values that are missing or empty. If the container has a named
  element, the question appended for it has that type and those options. A \<^verbatim>\<open>select\<close> whose
  options have the values \<^verbatim>\<open>""\<close>, \<^verbatim>\<open>"A"\<close>, \<^verbatim>\<open>"B"\<close> gives the options \<^verbatim>\<open>["A", "B"]\<close>.
\<close>

theorem select_is_dropdown:
  assumes "find_elements qc (CSS_SELECTOR (Some ''div'') [Attr_eq ''role'' ''radio'']) = []"
    and "find_elements qc (CSS_SELECTOR (Some ''div'') [Attr_eq ''role'' ''checkbox'']) = []"
    and "find_elements qc (TAG_NAME ''select'') = s # ss"
  shows "detect_type qc
      = (Some ''dropdown'',
         map the (filter (\<lambda>v. v \<noteq> None \<and> v \<noteq> Some [])
                   (map (\<lambda>opt. get_attribute opt ''value'') (find_elements s (TAG_NAME ''option'')))))
    \<and> (find_elements qc (CSS_SELECTOR None [Attr_prefix ''name'' ''entry.'']) \<noteq> [] \<longrightarrow>
        (\<exists>eid. extract_container qc qs
          = Inr (qs @ [\<lparr>entry_id = eid, q_type = ''dropdown'', options = snd (detect_type qc)\<rparr>])
         \<and> prefix ''entry.'' eid))"
proof -
  have tr: "truthy = (\<lambda>v. v \<noteq> None \<and> v \<noteq> Some [])"
    by (rule ext) (simp add: truthy_def split: option.splits)
  have d: "detect_type qc
      = (Some ''dropdown'',
         map the (filter (\<lambda>v. v \<noteq> None \<and> v \<noteq> Some [])
                   (map (\<lambda>opt. get_attribute opt ''value'') (find_elements s (TAG_NAME ''option'')))))"
    using detect_type_dropdown [OF assms] by (simp only: attr_values_filter tr)
  have q: "find_elements qc (CSS_SELECTOR None [Attr_prefix ''name'' ''entry.'']) \<noteq> [] \<longrightarrow>
        (\<exists>eid. extract_container qc qs
          = Inr (qs @ [\<lparr>entry_id = eid, q_type = ''dropdown'', options = snd (detect_type qc)\<rparr>])
         \<and> prefix ''entry.'' eid)"
  proof
    assume "find_elements qc (CSS_SELECTOR None [Attr_prefix ''name'' ''entry.'']) \<noteq> []"
    then obtain n ns where
      "find_elements qc (CSS_SELECTOR None [Attr_prefix ''name'' ''entry.'']) = n # ns"
      by (cases "find_elements qc (CSS_SELECTOR None [Attr_prefix ''name'' ''entry.''])") simp_all
    then obtain x where x: "prefix ''entry.'' x" "container_entry_id qc = Inr (Some (split_first x))"
      using container_entry_id_named by blast
    note e = split_first_entry [OF x(1)]
    have dt: "detect_type qc = (Some ''dropdown'', snd (detect_type qc))" using d by simp
    have "extract_container qc qs
        = Inr (qs @ [\<lparr>entry_id = split_first x, q_type = ''dropdown'',
                      options = snd (detect_type qc)\<rparr>])"
      using extract_container_question [OF x(2) _ dt] e by simp
    then show "\<exists>eid. extract_container qc qs
          = Inr (qs @ [\<lparr>entry_id = eid, q_type = ''dropdown'', options = snd (detect_type qc)\<rparr>])
         \<and> prefix ''entry.'' eid"
      using e by blast
  qed
  show ?thesis using d q by (intro conjI) assumption+
qed

theorem select_is_dropdown_witness:
  "find_elements
      (Element ''div'' [(''role'', ''listitem'')]
        [Element ''select'' [(''name'', ''entry.5'')]
          [Element ''option'' [(''value'', [])] [],
           Element ''option'' [(''value'', ''A'')] [],
           Element ''option'' [(''value'', ''B'')] []]])
      (CSS_SELECTOR (Some ''div'') [Attr_eq ''role'' ''radio'']) = []
   \<and> find_elements
      (Element ''div'' [(''role'', ''listitem'')]
        [Element ''select'' [(''name'', ''entry.5'')]
          [Element ''option'' [(''value'', [])] [],
           Element ''option'' [(''value'', ''A'')] [],
           Element ''option'' [(''value'', ''B'')] []]])
      (CSS_SELECTOR (Some ''div'') [Attr_eq ''role'' ''checkbox'']) = []
   \<and> find_elements
      (Element ''div'' [(''role'', ''listitem'')]
        [Element ''select'' [(''name'', ''entry.5'')]
          [Element ''option'' [(''value'', [])] [],
           Element ''option'' [(''value'', ''A'')] [],
           Element ''option'' [(''value'', ''B'')] []]])
      (TAG_NAME ''select'')
     = [Element ''select'' [(''name'', ''entry.5'')]
          [Element ''option'' [(''value'', [])] [],
           Element ''option'' [(''value'', ''A'')] [],
           Element ''option'' [(''value'', ''B'')] []]]
   \<and> map (\<lambda>opt. get_attribute opt ''value'')
        (find_elements
          (Element ''select'' [(''name'', ''entry.5'')]
            [Element ''option'' [(''value'', [])] [],
             Element ''option'' [(''value'', ''A'')] [],
             Element ''option'' [(''value'', ''B'')] []])
          (TAG_NAME ''option''))
     = [Some [], Some ''A'', Some ''B'']
   \<and> detect_type
      (Element ''div'' [(''role'', ''listitem'')]
        [Element ''select'' [(''name'', ''entry.5'')]
          [Element ''option'' [(''value'', [])] [],
           Element ''option'' [(''value'', ''A'')] [],
           Element ''option'' [(''value'', ''B'')] []]])
     = (Some ''dropdown'', [''A'', ''B''])
   \<and> (\<exists>eid. extract_container
      (Element ''div'' [(''role'', ''listitem'')]
        [Element ''select'' [(''name'', ''entry.5'')]
          [Element ''option'' [(''value'', [])] [],
           Element ''option'' [(''value'', ''A'')] [],
           Element ''option'' [(''value'', ''B'')] []]]) []
       = Inr [\<lparr>entry_id = eid, q_type = ''dropdown'', options = [''A'', ''B'']\<rparr>]
      \<and> prefix ''entry.'' eid)"
proof -
  let ?sel = "Element ''select'' [(''name'', ''entry.5'')]
          [Element ''option'' [(''value'', [])] [],
           Element ''option'' [(''value'', ''A'')] [],
           Element ''option'' [(''value'', ''B'')] []]"
  let ?qc = "Element ''div'' [(''role'', ''listitem'')] [?sel]"
  have h1: "find_elements ?qc (CSS_SELECTOR (Some ''div'') [Attr_eq ''role'' ''radio'']) = []"
    by (simp add: find_elements_def get_attribute_def)
  have h2: "find_elements ?qc (CSS_SELECTOR (Some ''div'') [Attr_eq ''role'' ''checkbox'']) = []"
    by (simp add: find_elements_def get_attribute_def)
  have h3: "find_elements ?qc (TAG_NAME ''select'') = ?sel # []"
    by (simp add: find_elements_def)
  have n: "find_elements ?qc (CSS_SELECTOR None [Attr_prefix ''name'' ''entry.'']) = [?sel]"
    by (simp add: find_elements_def get_attribute_def)
  have h4: "find_elements ?qc (CSS_SELECTOR None [Attr_prefix ''name'' ''entry.'']) \<noteq> []"
    by (simp only: n) simp
  have o: "map (\<lambda>opt. get_attribute opt ''value'') (find_elements ?sel (TAG_NAME ''option''))
      = [Some [], Some ''A'', Some ''B'']"
    by (simp add: find_elements_def get_attribute_def)
  note t = select_is_dropdown [OF h1 h2 h3, of "[]"]
  have d0: "detect_type ?qc
      = (Some ''dropdown'',
         map the (filter (\<lambda>v. v \<noteq> None \<and> v \<noteq> Some [])
                   (map (\<lambda>opt. get_attribute opt ''value'') (find_elements ?sel (TAG_NAME ''option'')))))"
    using t by blast
  have d: "detect_type ?qc = (Some ''dropdown'', [''A'', ''B''])"
    by (simp only: d0 o) simp
  have s: "snd (detect_type ?qc) = [''A'', ''B'']" by (simp only: d snd_conv)
  have e0: "\<exists>eid. extract_container ?qc []
       = Inr ([] @ [\<lparr>entry_id = eid, q_type = ''dropdown'', options = snd (detect_type ?qc)\<rparr>])
      \<and> prefix ''entry.'' eid"
    using t h4 by blast
  have e: "\<exists>eid. extract_container ?qc []
       = Inr [\<lparr>entry_id = eid, q_type = ''dropdown'', options = [''A'', ''B'']\<rparr>]
      \<and> prefix ''entry.'' eid"
    using e0 by (simp only: s append_Nil)
  show ?thesis using h1 h2 h3 o d e by (intro conjI) assumption+
qed

text \<open>
  Claim C8. A container none of whose descendants has a \<^verbatim>\<open>name\<close> attribute that begins with
  \<^verbatim>\<open>entry.\<close> leaves the list of questions as it is, whatever else it contains, and the
  questions extracted from a list of containers are those extracted from the list without
  that container.
\<close>

theorem unnamed_container_skipped:
  assumes "\<forall>e \<in> set (descendants qc).
             \<forall>x. get_attribute e ''name'' = Some x \<longrightarrow> \<not> prefix ''entry.'' x"
  shows "extract_container qc qs = Inr qs
    \<and> extract_containers (cs1 @ qc # cs2) qs = extract_containers (cs1 @ cs2) qs"
proof -
  note n = container_entry_id_none [OF assms]
  show ?thesis
    using extract_container_skip [OF n, of qs] extract_containers_skip [OF n, of cs1 cs2 qs]
    by (intro conjI) assumption+
qed

theorem unnamed_container_skipped_witness:
  "detect_type
      (Element ''div'' [(''role'', ''listitem'')]
        [Element ''div'' [(''role'', ''radio''), (''data-value'', ''Yes'')] [],
         Element ''input'' [(''type'', ''text''), (''name'', ''other'')] []])
     = (Some ''radio'', [''Yes''])
   \<and> extract_container
      (Element ''div'' [(''role'', ''listitem'')]
        [Element ''div'' [(''role'', ''radio''), (''data-value'', ''Yes'')] [],
         Element ''input'' [(''type'', ''text''), (''name'', ''other'')] []])
      [\<lparr>entry_id = ''entry.1'', q_type = ''text'', options = []\<rparr>]
     = Inr [\<lparr>entry_id = ''entry.1'', q_type = ''text'', options = []\<rparr>]
   \<and> extract_containers
      ([Element ''div'' [(''role'', ''listitem'')]
          [Element ''input'' [(''type'', ''text''), (''name'', ''entry.1'')] []]]
       @ Element ''div'' [(''role'', ''listitem'')]
          [Element ''div'' [(''role'', ''radio''), (''data-value'', ''Yes'')] [],
           Element ''input'' [(''type'', ''text''), (''name'', ''other'')] []]
       # [Element ''div'' [(''role'', ''listitem'')]
            [Element ''textarea'' [(''name'', ''entry.2'')] []]]) []
     = Inr [\<lparr>entry_id = ''entry.1'', q_type = ''text'', options = []\<rparr>,
            \<lparr>entry_id = ''entry.2'', q_type = ''paragraph'', options = []\<rparr>]"
proof -
  let ?qc = "Element ''div'' [(''role'', ''listitem'')]
        [Element ''div'' [(''role'', ''radio''), (''data-value'', ''Yes'')] [],
         Element ''input'' [(''type'', ''text''), (''name'', ''other'')] []]"
  let ?c1 = "Element ''div'' [(''role'', ''listitem'')]
          [Element ''input'' [(''type'', ''text''), (''name'', ''entry.1'')] []]"
  let ?c2 = "Element ''div'' [(''role'', ''listitem'')]
            [Element ''textarea'' [(''name'', ''entry.2'')] []]"
  let ?q1 = "\<lparr>entry_id = ''entry.1'', q_type = ''text'', options = []\<rparr>"
  let ?q2 = "\<lparr>entry_id = ''entry.2'', q_type = ''paragraph'', options = []\<rparr>"
  have h: "\<forall>e \<in> set (descendants ?qc).
             \<forall>x. get_attribute e ''name'' = Some x \<longrightarrow> \<not> prefix ''entry.'' x"
    by (simp add: get_attribute_def)
  have d: "detect_type ?qc = (Some ''radio'', [''Yes''])"
    by (simp add: detect_type_def find_elements_def get_attribute_def attr_values_def)
  note t1 = unnamed_container_skipped [OF h, of "[?q1]" "[]" "[]"]
  note t2 = unnamed_container_skipped [OF h, of "[]" "[?c1]" "[?c2]"]
  have a: "extract_container ?qc [?q1] = Inr [?q1]" using t1 by blast
  have b: "extract_containers ([?c1] @ ?qc # [?c2]) [] = extract_containers ([?c1] @ [?c2]) []"
    using t2 by blast
  have e1: "extract_container ?c1 [] = Inr [?q1]"
    by (simp add: extract_container_def container_entry_id_def detect_type_def find_elements_def
        get_attribute_def split_first_def truthy_def)
  have e2: "extract_container ?c2 [?q1] = Inr [?q1, ?q2]"
    by (simp add: extract_container_def container_entry_id_def detect_type_def find_elements_def
        get_attribute_def split_first_def truthy_def)
  have r: "extract_containers ([?c1] @ [?c2]) [] = Inr [?q1, ?q2]"
    by (simp add: e1 e2)
  have c: "extract_containers ([?c1] @ ?qc # [?c2]) [] = Inr [?q1, ?q2]"
    using b r by (rule trans)
  show ?thesis using d a c by (intro conjI) assumption+
qed

section \<open>Failure of the extraction\<close>

lemma extract_form_structure_error:
  "extract_form_structure doc = Inl e \<Longrightarrow> \<exists>c. e = RuntimeError c \<and> parse_form doc = Inl c"
  by (cases "parse_form doc") (auto simp: extract_form_structure_def)

lemma parse_form_no_form:
  "find_elements doc (CSS_SELECTOR (Some ''form'') []) = [] \<Longrightarrow>
   parse_form doc = Inl TimeoutException"
  by (simp add: parse_form_def wait_until_present_def)

lemma parse_form_no_fbzx:
  "find_elements doc (CSS_SELECTOR (Some ''form'') []) = f # fs' \<Longrightarrow>
   get_attribute f ''action'' = Some a \<Longrightarrow>
   find_elements doc (NAME ''fbzx'') = [] \<Longrightarrow>
   parse_form doc = Inl NoSuchElementException"
  by (simp add: parse_form_def wait_until_present_def find_element_def)

lemma main_extraction_failed:
  "files w (get_cache_filename (md5_hexdigest ev) form_url) = None \<Longrightarrow>
   extract_form_structure (browser ev form_url) = Inl e \<Longrightarrow>
   main ev form_url M w g = (Inl e, w, g)"
  by (simp add: main_def Let_def)

text \<open>
  Claim C9. Every failure of \<^verbatim>\<open>extract_form_structure\<close> is a \<^verbatim>\<open>RuntimeError\<close> that carries the
  exception met while parsing. A document without a \<^verbatim>\<open>form\<close> element fails with the timeout of
  the wait, and a document with a form and no element named \<^verbatim>\<open>fbzx\<close> fails with
  \<^verbatim>\<open>NoSuchElementException\<close>. When there is no cache file and the extraction fails, \<^verbatim>\<open>main\<close> ends
  with that error and the world is as it was: no cache file is written and no request is
  posted.
\<close>

theorem extraction_failure_is_fatal:
  "(extract_form_structure doc = Inl e \<longrightarrow> (\<exists>c. e = RuntimeError c \<and> parse_form doc = Inl c))
   \<and> (find_elements doc (CSS_SELECTOR (Some ''form'') []) = [] \<longrightarrow>
        extract_form_structure doc = Inl (RuntimeError TimeoutException))
   \<and> (find_elements doc (CSS_SELECTOR (Some ''form'') []) = f # fs'
        \<and> get_attribute f ''action'' = Some a
        \<and> find_elements doc (NAME ''fbzx'') = [] \<longrightarrow>
        extract_form_structure doc = Inl (RuntimeError NoSuchElementException))
   \<and> (files w (get_cache_filename (md5_hexdigest ev) form_url) = None
        \<and> extract_form_structure (browser ev form_url) = Inl e' \<longrightarrow>
        main ev form_url M w g = (Inl e', w, g))"
proof -
  have a: "extract_form_structure doc = Inl e \<longrightarrow>
      (\<exists>c. e = RuntimeError c \<and> parse_form doc = Inl c)"
    using extract_form_structure_error [of doc e] by blast
  have b: "find_elements doc (CSS_SELECTOR (Some ''form'') []) = [] \<longrightarrow>
        extract_form_structure doc = Inl (RuntimeError TimeoutException)"
    using parse_form_no_form [of doc] by (simp add: extract_form_structure_def)
  have c: "find_elements doc (CSS_SELECTOR (Some ''form'') []) = f # fs'
        \<and> get_attribute f ''action'' = Some a
        \<and> find_elements doc (NAME ''fbzx'') = [] \<longrightarrow>
        extract_form_structure doc = Inl (RuntimeError NoSuchElementException)"
    using parse_form_no_fbzx [of doc f fs' a] by (simp add: extract_form_structure_def)
  have d: "files w (get_cache_filename (md5_hexdigest ev) form_url) = None
        \<and> extract_form_structure (browser ev form_url) = Inl e' \<longrightarrow>
        main ev form_url M w g = (Inl e', w, g)"
    using main_extraction_failed [of w ev form_url e' M g] by blast
  show ?thesis using a b c d by (intro conjI) assumption+
qed

theorem extraction_failure_is_fatal_witness:
  "extract_form_structure (Element ''html'' [] [Element ''body'' [] []])
     = Inl (RuntimeError TimeoutException)
   \<and> extract_form_structure
       (Element ''html'' []
         [Element ''form'' [(''action'', ''/forms/d/e/abc/formResponse'')]
           [Element ''input'' [(''type'', ''hidden''), (''name'', ''pageHistory''), (''value'', ''0'')] []]])
     = Inl (RuntimeError NoSuchElementException)
   \<and> main \<lparr>md5_hexdigest = (\<lambda>u. ''d41d8cd98f00b204''),
            browser = (\<lambda>u. Element ''html'' []
              [Element ''form'' [(''action'', ''/forms/d/e/abc/formResponse'')]
                [Element ''input'' [(''type'', ''hidden''), (''name'', ''pageHistory''),
                                     (''value'', ''0'')] []]]),
            server = (\<lambda>u p. Status 200)\<rparr>
          ''https://docs.google.com/forms/d/e/abc/viewform'' 3
          \<lparr>files = (\<lambda>n. None), posts = []\<rparr> (sconst 0)
     = (Inl (RuntimeError NoSuchElementException), \<lparr>files = (\<lambda>n. None), posts = []\<rparr>, sconst 0)"
proof -
  let ?d0 = "Element ''html'' [] [Element ''body'' [] []]"
  let ?f = "Element ''form'' [(''action'', ''/forms/d/e/abc/formResponse'')]
           [Element ''input'' [(''type'', ''hidden''), (''name'', ''pageHistory''), (''value'', ''0'')] []]"
  let ?d1 = "Element ''html'' [] [?f]"
  let ?ev = "\<lparr>md5_hexdigest = (\<lambda>u. ''d41d8cd98f00b204''), browser = (\<lambda>u. ?d1),
            server = (\<lambda>u p. Status 200)\<rparr>"
  let ?w = "\<lparr>files = (\<lambda>n. None), posts = []\<rparr>"
  let ?url = "''https://docs.google.com/forms/d/e/abc/viewform''"
  let ?e = "RuntimeError NoSuchElementException"
  have h0: "find_elements ?d0 (CSS_SELECTOR (Some ''form'') []) = []"
    by (simp add: find_elements_def)
  have h1: "find_elements ?d1 (CSS_SELECTOR (Some ''form'') []) = ?f # []"
    by (simp add: find_elements_def)
  have h2: "get_attribute ?f ''action'' = Some ''/forms/d/e/abc/formResponse''"
    by (simp add: get_attribute_def)
  have h3: "find_elements ?d1 (NAME ''fbzx'') = []"
    by (simp add: find_elements_def get_attribute_def)
  have h4: "files ?w (get_cache_filename (md5_hexdigest ?ev) ?url) = None" by simp
  have b: "browser ?ev ?url = ?d1" by simp
  note t0 = extraction_failure_is_fatal [where doc = ?d0]
  note t1 = extraction_failure_is_fatal [where doc = ?d1 and f = ?f and fs' = "[]"
      and a = "''/forms/d/e/abc/formResponse''" and e = ?e and w = ?w and ev = ?ev
      and form_url = ?url and e' = ?e and M = 3 and g = "sconst 0"]
  have r0: "extract_form_structure ?d0 = Inl (RuntimeError TimeoutException)"
    using t0 h0 by blast
  have r1: "extract_form_structure ?d1 = Inl ?e"
    using t1 h1 h2 h3 by blast
  have r1': "extract_form_structure (browser ?ev ?url) = Inl ?e"
    by (simp only: b r1)
  have r2: "main ?ev ?url 3 ?w (sconst 0) = (Inl ?e, ?w, sconst 0)"
    using t1 h4 r1' by blast
  show ?thesis using r0 r1 r2 by (intro conjI) assumption+
qed

end
